theory Spec2Isabelle
  imports Main
begin

section \<open>Data model\<close>

text \<open>
  The types of \<^verbatim>\<open>types/chat.ts\<close> and \<^verbatim>\<open>types/llm.ts\<close>. A JavaScript string is a
  \<^typ>\<open>string\<close>, the list of its code units, each an 8-bit character: the model speaks
  about the texts whose code units are U+0000 to U+00FF, and \<open>CHR n\<close> is the code unit
  \<open>n\<close>; an optional field (\<^verbatim>\<open>images?\<close>, \<^verbatim>\<open>isLoading?\<close>) is an \<^typ>\<open>'a option\<close> with \<open>None\<close> for
  \<^verbatim>\<open>undefined\<close>; a \<^verbatim>\<open>Date\<close> is the number of milliseconds it holds.
\<close>

datatype role = User | Assistant

record ImageAttachment =
  img_id :: string
  img_name :: string
  img_type :: string
  img_size :: nat
  img_base64 :: string
  img_url :: string

record Message =
  msg_id :: string
  content :: string
  role :: role
  timestamp :: nat
  msg_isLoading :: "bool option"
  images :: "ImageAttachment list option"

datatype llm_role = LLM_user | LLM_assistant | LLM_system

record LLMImage =
  type_i :: string
  data_i :: string

record LLMMessage =
  llm_role :: llm_role
  llm_content :: string
  llm_images :: "LLMImage list option"

record LLMConfig =
  apiKey :: "string option"
  model :: "string option"
  baseURL :: "string option"

text \<open>
  What a \<^verbatim>\<open>throw\<close> carries: an \<^verbatim>\<open>Error\<close> object with its \<^verbatim>\<open>name\<close> and \<^verbatim>\<open>message\<close>, or
  any other value (\<^verbatim>\<open>err instanceof Error\<close> is false for it).
\<close>

datatype thrown = ErrorObj (err_name: string) (err_message: string) | NonError

definition new_Error :: "string \<Rightarrow> thrown" where
  "new_Error msg = ErrorObj ''Error'' msg"

text \<open>\<^verbatim>\<open>v || d\<close> on an optional string: \<^verbatim>\<open>undefined\<close> and the empty string are falsy.\<close>

definition or_else :: "string option \<Rightarrow> string \<Rightarrow> string" where
  "or_else v d = (case v of None \<Rightarrow> d | Some s \<Rightarrow> if s = [] then d else s)"

section \<open>Providers: construction\<close>

text \<open>
  \<^verbatim>\<open>GoogleGenAIProvider\<close> and \<^verbatim>\<open>OpenAIProvider\<close>. A constructor that throws returns
  \<open>Inl\<close> of what it throws. The vendor client object is a record of the key it was
  built with, held in a nullable reference as the field is in the class.
\<close>

record GoogleGenAI =
  client_apiKey :: string

record GoogleGenAIProvider =
  g_client :: "GoogleGenAI option"
  g_model :: string

record OpenAIProvider =
  o_apiKey :: string
  o_model :: string
  o_baseURL :: string

definition new_GoogleGenAIProvider :: "LLMConfig \<Rightarrow> thrown + GoogleGenAIProvider" where
  "new_GoogleGenAIProvider config =
     (case apiKey config of
        None \<Rightarrow> Inl (new_Error ''Google GenAI API key is required'')
      | Some k \<Rightarrow>
          if k = [] then Inl (new_Error ''Google GenAI API key is required'')
          else Inr \<lparr>g_client = Some \<lparr>client_apiKey = k\<rparr>,
                    g_model = or_else (model config) ''gemma-3-27b-it''\<rparr>)"

definition g_isConfigured :: "GoogleGenAIProvider \<Rightarrow> bool" where
  "g_isConfigured p = (g_client p \<noteq> None)"

definition new_OpenAIProvider :: "LLMConfig \<Rightarrow> thrown + OpenAIProvider" where
  "new_OpenAIProvider config =
     (case apiKey config of
        None \<Rightarrow> Inl (new_Error ''OpenAI API key is required'')
      | Some k \<Rightarrow>
          if k = [] then Inl (new_Error ''OpenAI API key is required'')
          else Inr \<lparr>o_apiKey = k,
                    o_model = or_else (model config) ''gpt-4'',
                    o_baseURL = or_else (baseURL config) ''https://api.openai.com/v1''\<rparr>)"

definition o_isConfigured :: "OpenAIProvider \<Rightarrow> bool" where
  "o_isConfigured p = (o_apiKey p \<noteq> [])"

section \<open>Registry and factory\<close>

text \<open>
  \<^verbatim>\<open>services/llm-registry.ts\<close>. The registry is the map of factories after
  \<^verbatim>\<open>registerBuiltInProviders\<close>; the environment is the record of the
  \<^verbatim>\<open>import.meta.env\<close> variables the factory reads.
\<close>

datatype provider = GoogleGenAI_p GoogleGenAIProvider | OpenAI_p OpenAIProvider

record Env =
  VITE_LLM_PROVIDER :: "string option"
  VITE_GENAI_KEY :: "string option"
  VITE_GENAI_MODEL :: "string option"
  VITE_OPENAI_API_KEY :: "string option"
  VITE_OPENAI_MODEL :: "string option"
  VITE_OPENAI_BASE_URL :: "string option"

definition builtin_factories :: "(string \<times> (LLMConfig \<Rightarrow> thrown + provider)) list" where
  "builtin_factories =
     [(''google-genai'', \<lambda>config. map_sum (\<lambda>e. e) GoogleGenAI_p (new_GoogleGenAIProvider config)),
      (''openai'', \<lambda>config. map_sum (\<lambda>e. e) OpenAI_p (new_OpenAIProvider config))]"

definition registry_create ::
  "(string \<times> (LLMConfig \<Rightarrow> thrown + provider)) list \<Rightarrow> string \<Rightarrow> LLMConfig \<Rightarrow> thrown + provider" where
  "registry_create factories type config =
     (case map_of factories type of
        None \<Rightarrow> Inl (new_Error (''LLM provider type '' @ [CHR 0x27] @ type @ [CHR 0x27] @ '' is not registered''))
      | Some factory \<Rightarrow> factory config)"

definition getConfigForProvider :: "Env \<Rightarrow> string \<Rightarrow> thrown + LLMConfig" where
  "getConfigForProvider e type =
     (if type = ''google-genai'' then
        Inr \<lparr>apiKey = Some (or_else (VITE_GENAI_KEY e) ''''),
             model = Some (or_else (VITE_GENAI_MODEL e) ''gemini-2.5-flash''),
             baseURL = None\<rparr>
      else if type = ''openai'' then
        Inr \<lparr>apiKey = Some (or_else (VITE_OPENAI_API_KEY e) ''''),
             model = Some (or_else (VITE_OPENAI_MODEL e) ''gpt-4''),
             baseURL = VITE_OPENAI_BASE_URL e\<rparr>
      else Inl (new_Error (''No environment configuration available for provider: '' @ type)))"

definition createFromEnvironment :: "Env \<Rightarrow> thrown + provider" where
  "createFromEnvironment e =
     (let providerType = or_else (VITE_LLM_PROVIDER e) ''google-genai'' in
      case getConfigForProvider e providerType of
        Inl err \<Rightarrow> Inl err
      | Inr config \<Rightarrow> registry_create builtin_factories providerType config)"

section \<open>Conversation controller\<close>

text \<open>
  The hook \<^verbatim>\<open>useChat\<close>. Its state is the three React state cells, the two refs, and
  what the asynchronous calls in flight hold in their own frames. An \<^verbatim>\<open>AbortController\<close>
  is an index into \<open>controllers\<close>, the list of the \<^verbatim>\<open>aborted\<close> flags of the controllers
  created so far. Each accepted \<^verbatim>\<open>sendMessage\<close> or \<^verbatim>\<open>retryLastMessage\<close> whose stream
  was opened is a \<open>turn\<close>: its \<^verbatim>\<open>assistantMessageId\<close>, its \<^verbatim>\<open>accumulatedContent\<close>, the
  \<^verbatim>\<open>llmMessages\<close> it handed to the provider, and how the promise of the call has settled.

  The functions run in the order JavaScript runs them: a call runs to its first
  \<^verbatim>\<open>await\<close> in one step, and after that one step per event of its stream (a fragment,
  the end of the stream, or an exception). The ids and the timestamps a call draws
  (\<^verbatim>\<open>generateId()\<close>, \<^verbatim>\<open>new Date()\<close>) are arguments of the call. The closure of a
  callback reads \<^verbatim>\<open>messages\<close> and \<^verbatim>\<open>isLoading\<close> of the state it is called in (the
  component has re-rendered since the last state update).
\<close>

datatype promise = Pending | Fulfilled | Rejected thrown

record turn =
  assistantMessageId :: string
  accumulatedContent :: string
  llmMessages :: "LLMMessage list"
  settled :: promise

record ChatState =
  messages :: "Message list"
  isLoading :: bool
  error :: "string option"
  abortControllerRef :: "nat option"
  controllers :: "bool list"
  llmProvider :: "provider option"
  env :: Env
  turns :: "turn list"

definition initial :: "Env \<Rightarrow> ChatState" where
  "initial e = \<lparr>messages = [], isLoading = False, error = None, abortControllerRef = None,
                controllers = [], llmProvider = None, env = e, turns = []\<rparr>"

definition convertToLLMMessage :: "Message \<Rightarrow> LLMMessage" where
  "convertToLLMMessage message =
     \<lparr>llm_role = (case role message of User \<Rightarrow> LLM_user | Assistant \<Rightarrow> LLM_assistant),
      llm_content = content message,
      llm_images = map_option (map (\<lambda>img. \<lparr>type_i = img_type img, data_i = img_base64 img\<rparr>))
                     (images message)\<rparr>"

text \<open>\<^verbatim>\<open>getLLM\<close>: the provider is built on first use and kept in the ref.\<close>

definition getLLM :: "ChatState \<Rightarrow> (thrown + provider) \<times> ChatState" where
  "getLLM s =
     (case llmProvider s of
        Some p \<Rightarrow> (Inr p, s)
      | None \<Rightarrow>
          (case createFromEnvironment (env s) of
             Inl err \<Rightarrow> (Inl err, s)
           | Inr p \<Rightarrow> (Inr p, s\<lparr>llmProvider := Some p\<rparr>)))"

text \<open>\<^verbatim>\<open>String.prototype.trim\<close> strips white space and line terminators from both ends.
  Of the code units U+0000 to U+00FF these are tab, line feed, vertical tab, form feed,
  carriage return, space and the no-break space U+00A0.\<close>

definition is_ws :: "char \<Rightarrow> bool" where
  "is_ws c =
     (c \<in> set [CHR 0x09, CHR 0x0A, CHR 0x0B, CHR 0x0C, CHR 0x0D, CHR 0x20, CHR 0xA0])"

definition trim :: "string \<Rightarrow> string" where
  "trim s = rev (dropWhile is_ws (rev (dropWhile is_ws s)))"

text \<open>\<^verbatim>\<open>images?.length\<close> as a condition.\<close>

definition has_length :: "'a list option \<Rightarrow> bool" where
  "has_length xs = (case xs of None \<Rightarrow> False | Some l \<Rightarrow> l \<noteq> [])"

text \<open>\<^verbatim>\<open>abortControllerRef.current.abort()\<close> when the ref is set, and
  \<^verbatim>\<open>abortControllerRef.current?.signal.aborted\<close>.\<close>

definition abort_current :: "ChatState \<Rightarrow> ChatState" where
  "abort_current s =
     (case abortControllerRef s of
        None \<Rightarrow> s
      | Some c \<Rightarrow> s\<lparr>controllers := (controllers s)[c := True]\<rparr>)"

definition signal_aborted :: "ChatState \<Rightarrow> bool" where
  "signal_aborted s =
     (case abortControllerRef s of
        None \<Rightarrow> False
      | Some c \<Rightarrow> c < length (controllers s) \<and> controllers s ! c)"

definition new_AbortController :: "ChatState \<Rightarrow> ChatState" where
  "new_AbortController s =
     s\<lparr>abortControllerRef := Some (length (controllers s)),
       controllers := controllers s @ [False]\<rparr>"

text \<open>The three updates of the message list that a turn makes, by message id.\<close>

definition merge_chunk :: "string \<Rightarrow> string \<Rightarrow> Message list \<Rightarrow> Message list" where
  "merge_chunk aid acc prev =
     map (\<lambda>msg. if msg_id msg = aid
                 then msg\<lparr>content := acc, msg_isLoading := Some False\<rparr>
                 else msg) prev"

definition final_update :: "string \<Rightarrow> string \<Rightarrow> Message list \<Rightarrow> Message list" where
  "final_update aid acc prev =
     map (\<lambda>msg. if msg_id msg = aid
                 then msg\<lparr>content := (if acc = [] then ''No response generated.'' else acc),
                          msg_isLoading := Some False\<rparr>
                 else msg) prev"

definition remove_loading :: "string \<Rightarrow> Message list \<Rightarrow> Message list" where
  "remove_loading aid prev = filter (\<lambda>msg. msg_id msg \<noteq> aid) prev"

text \<open>The \<^verbatim>\<open>catch\<close> block and the \<^verbatim>\<open>finally\<close> block, on the state cells.\<close>

definition is_AbortError :: "thrown \<Rightarrow> bool" where
  "is_AbortError err = (case err of ErrorObj n m \<Rightarrow> n = ''AbortError'' | NonError \<Rightarrow> False)"

definition errorMessage :: "thrown \<Rightarrow> string" where
  "errorMessage err = (case err of ErrorObj n m \<Rightarrow> m | NonError \<Rightarrow> ''Something went wrong'')"

definition finally_block :: "ChatState \<Rightarrow> ChatState" where
  "finally_block s = s\<lparr>isLoading := False, abortControllerRef := None\<rparr>"

definition catch_block :: "string \<Rightarrow> thrown \<Rightarrow> ChatState \<Rightarrow> ChatState" where
  "catch_block aid err s =
     (if is_AbortError err then finally_block s
      else finally_block (s\<lparr>error := Some (errorMessage err),
                      messages := remove_loading aid (messages s)\<rparr>))"

text \<open>
  The messages a call builds, and its state updates before the \<^verbatim>\<open>try\<close> block:
  \<^verbatim>\<open>setMessages\<close>, \<^verbatim>\<open>setIsLoading(true)\<close>, \<^verbatim>\<open>setError(null)\<close>.
\<close>

definition new_userMessage :: "string \<Rightarrow> string \<Rightarrow> nat \<Rightarrow> ImageAttachment list option \<Rightarrow> Message" where
  "new_userMessage uid text utime imgs =
     \<lparr>msg_id = uid, content = trim text, role = User, timestamp = utime,
      msg_isLoading = None, images = imgs\<rparr>"

definition new_loadingMessage :: "string \<Rightarrow> nat \<Rightarrow> Message" where
  "new_loadingMessage aid atime =
     \<lparr>msg_id = aid, content = [], role = Assistant, timestamp = atime,
      msg_isLoading = Some True, images = None\<rparr>"

definition send_updates :: "Message \<Rightarrow> Message \<Rightarrow> ChatState \<Rightarrow> ChatState" where
  "send_updates userMessage loadingMessage s =
     s\<lparr>messages := messages s @ [userMessage, loadingMessage], isLoading := True, error := None\<rparr>"

definition drop_trailing_assistant :: "Message list \<Rightarrow> Message list" where
  "drop_trailing_assistant prev =
     (if prev \<noteq> [] \<and> role (last prev) = Assistant then butlast prev else prev)"

definition retry_updates :: "Message \<Rightarrow> ChatState \<Rightarrow> ChatState" where
  "retry_updates loadingMessage s =
     s\<lparr>messages := drop_trailing_assistant (messages s) @ [loadingMessage],
       isLoading := True, error := None\<rparr>"

text \<open>
  From \<^verbatim>\<open>// Cancel any ongoing request\<close> to the first \<^verbatim>\<open>await\<close>, the same in
  \<^verbatim>\<open>sendMessage\<close> and \<^verbatim>\<open>retryLastMessage\<close>: the previous controller is aborted and
  replaced, the provider is fetched, and the stream is opened on the history. An
  exception of \<^verbatim>\<open>getLLM\<close> is handled by the \<^verbatim>\<open>catch\<close> block at once.
\<close>

definition open_stream :: "string \<Rightarrow> LLMMessage list \<Rightarrow> ChatState \<Rightarrow> ChatState" where
  "open_stream aid history s0 =
     (let s1 = new_AbortController (abort_current s0) in
      case getLLM s1 of
        (Inl err, s2) \<Rightarrow> catch_block aid err s2
      | (Inr llm, s2) \<Rightarrow>
          s2\<lparr>turns := turns s2 @
                [\<lparr>assistantMessageId = aid, accumulatedContent = [],
                  llmMessages = history, settled = Pending\<rparr>]\<rparr>)"

text \<open>\<open>llm_ready\<close>: \<^verbatim>\<open>getLLM()\<close> returns a provider (kept in the ref, or built now).\<close>

definition llm_ready :: "ChatState \<Rightarrow> bool" where
  "llm_ready s =
     (case llmProvider s of
        Some p \<Rightarrow> True
      | None \<Rightarrow> (case createFromEnvironment (env s) of Inl err \<Rightarrow> False | Inr p \<Rightarrow> True))"

definition sendMessage ::
  "string \<Rightarrow> ImageAttachment list option \<Rightarrow> string \<Rightarrow> nat \<Rightarrow> string \<Rightarrow> nat \<Rightarrow> ChatState \<Rightarrow> ChatState" where
  "sendMessage text imgs uid utime aid atime s =
     (if (trim text = [] \<and> \<not> has_length imgs) \<or> isLoading s then s
      else
        let userMessage = new_userMessage uid text utime imgs;
            loadingMessage = new_loadingMessage aid atime;
            conversationHistory = messages s @ [userMessage]
        in open_stream aid (map convertToLLMMessage conversationHistory)
             (send_updates userMessage loadingMessage s))"

definition clearChat :: "ChatState \<Rightarrow> ChatState" where
  "clearChat s = (abort_current (s\<lparr>messages := [], error := None\<rparr>))\<lparr>isLoading := False\<rparr>"

text \<open>\<^verbatim>\<open>messages[messages.length - 1]?.id\<close>: \<^verbatim>\<open>undefined\<close> on the empty list.\<close>

definition last_id :: "Message list \<Rightarrow> string option" where
  "last_id msgs = (if msgs = [] then None else Some (msg_id (last msgs)))"

definition retry_history :: "Message list \<Rightarrow> Message \<Rightarrow> Message list" where
  "retry_history msgs lastUserMessage =
     filter (\<lambda>msg. role msg = User \<or> Some (msg_id msg) \<noteq> last_id msgs) msgs @ [lastUserMessage]"

definition retryLastMessage :: "string \<Rightarrow> nat \<Rightarrow> ChatState \<Rightarrow> ChatState" where
  "retryLastMessage aid atime s =
     (case find (\<lambda>msg. role msg = User) (rev (messages s)) of
        None \<Rightarrow> s
      | Some lastUserMessage \<Rightarrow>
          if isLoading s then s
          else
            open_stream aid (map convertToLLMMessage (retry_history (messages s) lastUserMessage))
              (retry_updates (new_loadingMessage aid atime) s))"

text \<open>
  The events of a stream. \<open>settle\<close> is the end of the \<^verbatim>\<open>async\<close> function: the
  \<^verbatim>\<open>finally\<close> block, and the promise fulfilled (no path of the function rethrows).
\<close>

definition settle :: "nat \<Rightarrow> ChatState \<Rightarrow> ChatState" where
  "settle t s = (finally_block s)\<lparr>turns := (turns s)[t := (turns s ! t)\<lparr>settled := Fulfilled\<rparr>]\<rparr>"

definition live :: "nat \<Rightarrow> ChatState \<Rightarrow> bool" where
  "live t s = (t < length (turns s) \<and> settled (turns s ! t) = Pending)"

definition stream_end :: "nat \<Rightarrow> ChatState \<Rightarrow> ChatState" where
  "stream_end t s =
     (if live t s then
        let tu = turns s ! t in
        settle t (s\<lparr>messages := final_update (assistantMessageId tu) (accumulatedContent tu)
                                   (messages s)\<rparr>)
      else s)"

definition stream_chunk :: "nat \<Rightarrow> string \<Rightarrow> ChatState \<Rightarrow> ChatState" where
  "stream_chunk t chunk s =
     (if live t s then
        if signal_aborted s then stream_end t s
        else
          let tu = turns s ! t;
              acc = accumulatedContent tu @ chunk
          in s\<lparr>messages := merge_chunk (assistantMessageId tu) acc (messages s),
               turns := (turns s)[t := tu\<lparr>accumulatedContent := acc\<rparr>]\<rparr>
      else s)"

definition stream_throw :: "nat \<Rightarrow> thrown \<Rightarrow> ChatState \<Rightarrow> ChatState" where
  "stream_throw t err s =
     (if live t s then
        let caught = catch_block (assistantMessageId (turns s ! t)) err s in
        caught\<lparr>turns := (turns s)[t := (turns s ! t)\<lparr>settled := Fulfilled\<rparr>]\<rparr>
      else s)"

datatype event =
    SendMessage string "ImageAttachment list option" string nat string nat
  | RetryLastMessage string nat
  | ClearChat
  | Chunk nat string
  | StreamEnd nat
  | StreamThrow nat thrown

fun step :: "ChatState \<Rightarrow> event \<Rightarrow> ChatState" where
  "step s (SendMessage text imgs uid utime aid atime) = sendMessage text imgs uid utime aid atime s"
| "step s (RetryLastMessage aid atime) = retryLastMessage aid atime s"
| "step s ClearChat = clearChat s"
| "step s (Chunk t chunk) = stream_chunk t chunk s"
| "step s (StreamEnd t) = stream_end t s"
| "step s (StreamThrow t err) = stream_throw t err s"

definition run :: "ChatState \<Rightarrow> event list \<Rightarrow> ChatState" where
  "run s evs = foldl step s evs"

text \<open>
  The fragments and the end of the provider's stream in one uninterrupted turn, as the
  events of turn \<open>t\<close>.
\<close>

definition stream_events :: "nat \<Rightarrow> string list \<Rightarrow> event list" where
  "stream_events t fragments = map (Chunk t) fragments @ [StreamEnd t]"

text \<open>
  Turn \<open>t\<close> is being consumed: its call has not settled, it holds \<open>aid\<close> and \<open>acc\<close>, and
  the controller in the ref is not aborted.
\<close>

definition streaming :: "nat \<Rightarrow> string \<Rightarrow> string \<Rightarrow> ChatState \<Rightarrow> bool" where
  "streaming t aid acc s =
     (t < length (turns s) \<and> assistantMessageId (turns s ! t) = aid \<and>
      accumulatedContent (turns s ! t) = acc \<and> settled (turns s ! t) = Pending \<and>
      \<not> signal_aborted s)"

text \<open>The number of messages that show the loading indicator.\<close>

definition loading_count :: "Message list \<Rightarrow> nat" where
  "loading_count msgs = length (filter (\<lambda>msg. msg_isLoading msg = Some True) msgs)"

text \<open>An environment that selects the default provider and gives it a key.\<close>

definition env_with_key :: Env where
  "env_with_key =
     \<lparr>VITE_LLM_PROVIDER = None, VITE_GENAI_KEY = Some ''key'', VITE_GENAI_MODEL = None,
      VITE_OPENAI_API_KEY = None, VITE_OPENAI_MODEL = None, VITE_OPENAI_BASE_URL = None\<rparr>"

text \<open>An environment with no variable set: the default provider, and no key for it.\<close>

definition env_without_key :: Env where
  "env_without_key =
     \<lparr>VITE_LLM_PROVIDER = None, VITE_GENAI_KEY = None, VITE_GENAI_MODEL = None,
      VITE_OPENAI_API_KEY = None, VITE_OPENAI_MODEL = None, VITE_OPENAI_BASE_URL = None\<rparr>"

section \<open>Vendor-SDK provider: request contents\<close>

text \<open>
  \<^verbatim>\<open>GoogleGenAIProvider.generateStreamingResponse\<close> up to the request, in the version
  that loads the system prompt. \<open>prompt\<close> is what \<^verbatim>\<open>loadSystemPrompt\<close> resolved to. A
  content's role is the string sent on the wire.
\<close>

datatype part = Text_part string | InlineData string string

record Content =
  c_role :: string
  parts :: "part list"

definition toContent :: "string \<Rightarrow> LLMMessage \<Rightarrow> Content" where
  "toContent prompt msg =
     \<lparr>c_role = (if llm_role msg = LLM_user then ''user'' else ''model''),
      parts =
        (if llm_content msg \<noteq> [] then
           [Text_part (if llm_role msg = LLM_user
                       then prompt @ [CHR 0x0A, CHR 0x0A] @ ''User: '' @ llm_content msg
                       else llm_content msg)]
         else []) @
        (case llm_images msg of
           None \<Rightarrow> []
         | Some imgs \<Rightarrow>
             if imgs \<noteq> [] then map (\<lambda>image. InlineData (type_i image) (data_i image)) imgs
             else [])\<rparr>"

text \<open>\<^verbatim>\<open>Array.prototype.join\<close> and \<^verbatim>\<open>toLowerCase\<close>. Of the code units U+0000 to U+00FF
  the upper-case letters are \<^verbatim>\<open>A\<close> to \<^verbatim>\<open>Z\<close>, U+00C0 to U+00D6 and U+00D8 to U+00DE; the
  lower-case letter of each is 32 code units further on, and every other code unit is
  left as it is.\<close>

fun join :: "string \<Rightarrow> string list \<Rightarrow> string" where
  "join sep [] = []"
| "join sep [x] = x"
| "join sep (x # y # ys) = x @ sep @ join sep (y # ys)"

definition toLowerCase_char :: "char \<Rightarrow> char" where
  "toLowerCase_char c =
     (case map_of
             (zip (''ABCDEFGHIJKLMNOPQRSTUVWXYZ'' @
                   [CHR 0xC0, CHR 0xC1, CHR 0xC2, CHR 0xC3, CHR 0xC4, CHR 0xC5, CHR 0xC6, CHR 0xC7,
                    CHR 0xC8, CHR 0xC9, CHR 0xCA, CHR 0xCB, CHR 0xCC, CHR 0xCD, CHR 0xCE, CHR 0xCF,
                    CHR 0xD0, CHR 0xD1, CHR 0xD2, CHR 0xD3, CHR 0xD4, CHR 0xD5, CHR 0xD6,
                    CHR 0xD8, CHR 0xD9, CHR 0xDA, CHR 0xDB, CHR 0xDC, CHR 0xDD, CHR 0xDE])
                  (''abcdefghijklmnopqrstuvwxyz'' @
                   [CHR 0xE0, CHR 0xE1, CHR 0xE2, CHR 0xE3, CHR 0xE4, CHR 0xE5, CHR 0xE6, CHR 0xE7,
                    CHR 0xE8, CHR 0xE9, CHR 0xEA, CHR 0xEB, CHR 0xEC, CHR 0xED, CHR 0xEE, CHR 0xEF,
                    CHR 0xF0, CHR 0xF1, CHR 0xF2, CHR 0xF3, CHR 0xF4, CHR 0xF5, CHR 0xF6,
                    CHR 0xF8, CHR 0xF9, CHR 0xFA, CHR 0xFB, CHR 0xFC, CHR 0xFD, CHR 0xFE])) c of
        Some d \<Rightarrow> d
      | None \<Rightarrow> c)"

definition toLowerCase :: "string \<Rightarrow> string" where
  "toLowerCase text = map toLowerCase_char text"

text \<open>
  \<^verbatim>\<open>detectMathContent\<close>: the regular expression \<^verbatim>\<open>/\b(k1|k2|...)\b/\<close> tested on the
  text (the same in both providers). \<^verbatim>\<open>\b\<close> holds at a position when exactly one of
  the characters before and after it is a word character (\<^verbatim>\<open>[A-Za-z0-9_]\<close>; the ends
  of the text count as non-word). The test succeeds when, at some position, \<^verbatim>\<open>\b\<close>
  holds, one of the alternatives is a prefix of the rest, and \<^verbatim>\<open>\b\<close> holds after it.
  \<open>before\<close> says whether the character before the position is a word character.
\<close>

definition mathKeywords :: "string list" where
  "mathKeywords =
     [''equation'', ''formula'', ''math'', ''solve'', ''calculate'', ''quadratic'', ''algebra'',
      ''geometry'', ''calculus'', ''function'', ''derivative'', ''integral'', ''matrix'',
      ''vector'', ''polynomial'', ''coefficient'', ''variable'', ''solution'', ''theorem'',
      ''proof'', ''x^'', ''^2'', ''sqrt'', ''fraction'', ''percent'']"

definition is_word_char :: "char \<Rightarrow> bool" where
  "is_word_char c =
     (c \<in> set ''abcdefghijklmnopqrstuvwxyzABCDEFGHIJKLMNOPQRSTUVWXYZ0123456789_'')"

definition word_boundary :: "bool \<Rightarrow> string \<Rightarrow> bool" where
  "word_boundary before rest =
     (before \<noteq> (case rest of [] \<Rightarrow> False | c # cs \<Rightarrow> is_word_char c))"

definition keyword_here :: "string \<Rightarrow> string \<Rightarrow> bool" where
  "keyword_here k rest =
     (take (length k) rest = k \<and> word_boundary (is_word_char (last k)) (drop (length k) rest))"

definition match_here :: "bool \<Rightarrow> string \<Rightarrow> bool" where
  "match_here before rest =
     (word_boundary before rest \<and> list_ex (\<lambda>k. keyword_here k rest) mathKeywords)"

fun test_from :: "bool \<Rightarrow> string \<Rightarrow> bool" where
  "test_from before [] = match_here before []"
| "test_from before (c # cs) = (match_here before (c # cs) \<or> test_from (is_word_char c) cs)"

definition detectMathContent :: "string \<Rightarrow> bool" where
  "detectMathContent text = test_from False text"

definition createMathInstruction :: Content where
  "createMathInstruction = \<lparr>c_role = ''model'', parts = [Text_part []]\<rparr>"

definition google_contents :: "string \<Rightarrow> LLMMessage list \<Rightarrow> Content list" where
  "google_contents prompt msgs =
     (let contents = map (toContent prompt) msgs;
          conversationText = toLowerCase (join '' '' (map llm_content msgs));
          hasMathKeywords = detectMathContent conversationText
      in if hasMathKeywords then createMathInstruction # contents else contents)"

text \<open>
  The rest of the generator: a chunk of the SDK's stream is yielded when its
  \<^verbatim>\<open>text\<close> is a non-empty string, and whatever is thrown is thrown again as a new
  \<^verbatim>\<open>Error\<close> (both providers).
\<close>

definition google_yield :: "string option list \<Rightarrow> string list" where
  "google_yield chunks =
     concat (map (\<lambda>chunk. case chunk of None \<Rightarrow> [] | Some t \<Rightarrow> if t \<noteq> [] then [t] else []) chunks)"

definition provider_rethrow :: "string \<Rightarrow> thrown \<Rightarrow> thrown" where
  "provider_rethrow name err =
     (case err of
        ErrorObj n m \<Rightarrow> new_Error (name @ '' Error: '' @ m)
      | NonError \<Rightarrow> new_Error (''Failed to generate response from '' @ name))"

section \<open>Raw-HTTP provider: reading the stream\<close>

text \<open>
  \<^verbatim>\<open>OpenAIProvider.generateStreamingResponse\<close> from \<^verbatim>\<open>let buffer = ""\<close> on. The body
  arrives as the list of its decoded chunks. \<^verbatim>\<open>JSON.parse\<close> is the platform's: it is
  the parameter \<open>parse\<close>, \<open>None\<close> where it throws. A parsed value is a \<open>json\<close>; of
  a number only zero or not matters here. A value read from it is a \<open>json option\<close>,
  \<open>None\<close> for \<^verbatim>\<open>undefined\<close>.
\<close>

datatype json =
    JNull
  | JBool bool
  | JNum int
  | JStr string
  | JArr "json list"
  | JObj "(string \<times> json) list"

text \<open>\<^verbatim>\<open>v.name\<close> and \<^verbatim>\<open>v[0]\<close> on a value that is neither \<^verbatim>\<open>null\<close> nor \<^verbatim>\<open>undefined\<close>,
  for the names \<^verbatim>\<open>choices\<close>, \<^verbatim>\<open>delta\<close>, \<^verbatim>\<open>content\<close> (no prototype has them).\<close>

definition member :: "string \<Rightarrow> json \<Rightarrow> json option" where
  "member name v = (case v of JObj kvs \<Rightarrow> map_of kvs name | _ \<Rightarrow> None)"

definition index0 :: "json \<Rightarrow> json option" where
  "index0 v =
     (case v of
        JArr xs \<Rightarrow> (case xs of [] \<Rightarrow> None | x # _ \<Rightarrow> Some x)
      | JStr str \<Rightarrow> (case str of [] \<Rightarrow> None | c # _ \<Rightarrow> Some (JStr [c]))
      | JObj kvs \<Rightarrow> map_of kvs ''0''
      | _ \<Rightarrow> None)"

text \<open>\<^verbatim>\<open>v?.f\<close>: \<^verbatim>\<open>undefined\<close> when \<open>v\<close> is \<^verbatim>\<open>null\<close> or \<^verbatim>\<open>undefined\<close>.\<close>

definition optional_chain :: "(json \<Rightarrow> json option) \<Rightarrow> json option \<Rightarrow> json option" where
  "optional_chain f v = (case v of None \<Rightarrow> None | Some JNull \<Rightarrow> None | Some x \<Rightarrow> f x)"

definition truthy :: "json \<Rightarrow> bool" where
  "truthy v =
     (case v of
        JNull \<Rightarrow> False
      | JBool b \<Rightarrow> b
      | JNum n \<Rightarrow> n \<noteq> 0
      | JStr str \<Rightarrow> str \<noteq> []
      | JArr xs \<Rightarrow> True
      | JObj kvs \<Rightarrow> True)"

text \<open>\<^verbatim>\<open>parsed.choices?.[0]?.delta?.content\<close>: reading \<^verbatim>\<open>choices\<close> of \<^verbatim>\<open>null\<close> throws
  a \<^verbatim>\<open>TypeError\<close>.\<close>

definition delta_content :: "json \<Rightarrow> thrown + json option" where
  "delta_content parsed =
     (if parsed = JNull then Inl (ErrorObj ''TypeError'' ''Cannot read properties of null'')
      else Inr (optional_chain (member ''content'')
                 (optional_chain (member ''delta'')
                   (optional_chain index0 (member ''choices'' parsed)))))"

text \<open>What one line of the buffer does to the generator.\<close>

datatype line_effect = Return | Yield json | Skip

definition handle_line :: "(string \<Rightarrow> json option) \<Rightarrow> string \<Rightarrow> line_effect" where
  "handle_line parse line =
     (if take 6 line = ''data: '' then
        let data = drop 6 line in
        if data = ''[DONE]'' then Return
        else
          (case parse data of
             None \<Rightarrow> Skip
           | Some parsed \<Rightarrow>
               (case delta_content parsed of
                  Inl err \<Rightarrow> Skip
                | Inr None \<Rightarrow> Skip
                | Inr (Some c) \<Rightarrow> if truthy c then Yield c else Skip))
      else Skip)"

text \<open>The \<^verbatim>\<open>for\<close> loop over the lines: what it yields, and whether it returned.\<close>

fun for_lines :: "(string \<Rightarrow> json option) \<Rightarrow> string list \<Rightarrow> json list \<times> bool" where
  "for_lines parse [] = ([], False)"
| "for_lines parse (line # rest) =
     (case handle_line parse line of
        Return \<Rightarrow> ([], True)
      | Yield c \<Rightarrow> (case for_lines parse rest of (yielded, returned) \<Rightarrow> (c # yielded, returned))
      | Skip \<Rightarrow> for_lines parse rest)"

text \<open>\<^verbatim>\<open>buffer.split("\n")\<close>: never empty; the last piece is what follows the last
  line feed.\<close>

fun split_nl :: "string \<Rightarrow> string list" where
  "split_nl [] = [[]]"
| "split_nl (c # cs) =
     (if c = CHR 0x0A then [] # split_nl cs
      else (case split_nl cs of [] \<Rightarrow> [[c]] | piece # pieces \<Rightarrow> (c # piece) # pieces))"

text \<open>
  The \<^verbatim>\<open>while (true)\<close> loop: one round per chunk read; at \<^verbatim>\<open>done\<close> it stops and what
  is left in the buffer is dropped. The result is everything the generator yields.
\<close>

fun read_loop :: "(string \<Rightarrow> json option) \<Rightarrow> string \<Rightarrow> string list \<Rightarrow> json list" where
  "read_loop parse buffer [] = []"
| "read_loop parse buffer (v # vs) =
     (let lines = split_nl (buffer @ v);
          popped = last lines;
          buffer' = (if popped = [] then [] else popped);
          lines' = butlast lines;
          (yielded, returned) = for_lines parse lines'
      in if returned then yielded else yielded @ read_loop parse buffer' vs)"

definition openai_fragments :: "(string \<Rightarrow> json option) \<Rightarrow> string list \<Rightarrow> json list" where
  "openai_fragments parse chunks = read_loop parse [] chunks"

text \<open>The complete lines of a text: the pieces of \<^verbatim>\<open>split\<close> but the last.\<close>

definition complete_lines :: "string \<Rightarrow> string list" where
  "complete_lines text = butlast (split_nl text)"

text \<open>
  A line payload as the API sends it, \<^verbatim>\<open>{"choices":[{"delta":{"content":"Hi"}}]}\<close>, and a
  \<open>parse\<close> that knows this one text.
\<close>

definition sample_payload :: string where
  "sample_payload =
     concat [''{'', [CHR 0x22], ''choices'', [CHR 0x22], '':[{'', [CHR 0x22], ''delta'', [CHR 0x22],
             '':{'', [CHR 0x22], ''content'', [CHR 0x22], '':'', [CHR 0x22], ''Hi'', [CHR 0x22],
             ''}}]}'']"

definition sample_parse :: "string \<Rightarrow> json option" where
  "sample_parse d =
     (if d = sample_payload
      then Some (JObj [(''choices'', JArr [JObj [(''delta'', JObj [(''content'', JStr ''Hi'')])]])])
      else None)"

text \<open>
  Runs that keep to one turn at a time: \<^verbatim>\<open>clearChat\<close> is called only while
  \<^verbatim>\<open>isLoading\<close> is false, and no stream throws an \<^verbatim>\<open>AbortError\<close>. \<open>protocol\<close> is what
  such runs maintain: while \<^verbatim>\<open>isLoading\<close> is true the last turn is the only one not
  settled, the controller in the ref is not aborted, and the last message carries the
  id of that turn and is the only one that may be loading; while it is false every turn
  has settled and no message is loading.
\<close>

definition allowed :: "ChatState \<Rightarrow> event \<Rightarrow> bool" where
  "allowed s ev =
     (case ev of
        ClearChat \<Rightarrow> \<not> isLoading s
      | StreamThrow t err \<Rightarrow> \<not> is_AbortError err
      | _ \<Rightarrow> True)"

fun disciplined :: "ChatState \<Rightarrow> event list \<Rightarrow> bool" where
  "disciplined s [] = True"
| "disciplined s (ev # evs) = (allowed s ev \<and> disciplined (step s ev) evs)"

definition has_settled :: "turn \<Rightarrow> bool" where
  "has_settled tu = (settled tu \<noteq> Pending)"

definition protocol :: "ChatState \<Rightarrow> bool" where
  "protocol s =
     (if isLoading s then
        turns s \<noteq> [] \<and> settled (last (turns s)) = Pending \<and>
        list_all has_settled (butlast (turns s)) \<and>
        \<not> signal_aborted s \<and>
        messages s \<noteq> [] \<and>
        msg_id (last (messages s)) = assistantMessageId (last (turns s)) \<and>
        loading_count (butlast (messages s)) = 0
      else list_all has_settled (turns s) \<and> loading_count (messages s) = 0)"

section \<open>Lemmas about the controller\<close>

lemma getLLM_ready:
  "llm_ready s \<Longrightarrow> \<exists>p. getLLM s = (Inr p, s\<lparr>llmProvider := Some p\<rparr>)"
  by (auto simp: llm_ready_def getLLM_def split: option.splits sum.splits)

lemma open_stream_ready:
  assumes "llm_ready s"
  shows "\<exists>p. open_stream aid h s =
     s\<lparr>controllers := controllers (abort_current s) @ [False],
       abortControllerRef := Some (length (controllers s)),
       llmProvider := Some p,
       turns := turns s @ [\<lparr>assistantMessageId = aid, accumulatedContent = [],
                  llmMessages = h, settled = Pending\<rparr>]\<rparr>"
proof -
  let ?s1 = "new_AbortController (abort_current s)"
  have r: "llm_ready ?s1"
    using assms by (simp add: llm_ready_def new_AbortController_def abort_current_def split: option.splits)
  from getLLM_ready[OF r] obtain p where p: "getLLM ?s1 = (Inr p, ?s1\<lparr>llmProvider := Some p\<rparr>)" by blast
  show ?thesis
    apply (rule exI[of _ p])
    apply (simp add: open_stream_def Let_def p)
    apply (simp add: new_AbortController_def abort_current_def split: option.splits)
    done
qed

lemma length_controllers_abort [simp]: "length (controllers (abort_current s)) = length (controllers s)"
  by (simp add: abort_current_def split: option.splits)

lemma open_stream_messages: "llm_ready s \<Longrightarrow> messages (open_stream aid h s) = messages s"
  using open_stream_ready[of s aid h] by auto


lemma open_stream_streaming:
  "llm_ready s \<Longrightarrow> streaming (length (turns s)) aid [] (open_stream aid h s)"
  using open_stream_ready[of s aid h]
  by (auto simp: streaming_def signal_aborted_def nth_append)

lemma open_stream_flags:
  "llm_ready s \<Longrightarrow> isLoading (open_stream aid h s) = isLoading s \<and> error (open_stream aid h s) = error s"
  using open_stream_ready[of s aid h] by auto

lemma merge_merge [simp]: "merge_chunk aid a (merge_chunk aid b xs) = merge_chunk aid a xs"
  by (induction xs) (auto simp: merge_chunk_def)

lemma final_merge [simp]: "final_update aid a (merge_chunk aid b xs) = final_update aid a xs"
  by (induction xs) (auto simp: merge_chunk_def final_update_def)

lemma remove_merge [simp]: "remove_loading aid (merge_chunk aid b xs) = remove_loading aid xs"
  by (induction xs) (auto simp: merge_chunk_def remove_loading_def)

lemma chunk_streaming:
  assumes "streaming t aid acc s"
  shows "streaming t aid (acc @ c) (stream_chunk t c s)"
    and "messages (stream_chunk t c s) = merge_chunk aid (acc @ c) (messages s)"
    and "isLoading (stream_chunk t c s) = isLoading s"
    and "error (stream_chunk t c s) = error s"
  using assms
  by (auto simp: streaming_def stream_chunk_def live_def Let_def signal_aborted_def split: option.splits)

lemma run_Cons [simp]: "run s (e # es) = run (step s e) es"
  by (simp add: run_def)

lemma run_Nil [simp]: "run s [] = s"
  by (simp add: run_def)

lemma run_append: "run s (es @ fs) = run (run s es) fs"
  by (simp add: run_def)

lemma run_chunks:
  "streaming t aid acc s \<Longrightarrow>
     streaming t aid (acc @ concat cs) (run s (map (Chunk t) cs)) \<and>
     messages (run s (map (Chunk t) cs)) =
       (if cs = [] then messages s else merge_chunk aid (acc @ concat cs) (messages s)) \<and>
     isLoading (run s (map (Chunk t) cs)) = isLoading s \<and>
     error (run s (map (Chunk t) cs)) = error s"
proof (induction cs arbitrary: s acc)
  case Nil
  then show ?case by simp
next
  case (Cons c cs)
  note st = chunk_streaming[OF Cons.prems, of c]
  from Cons.IH[OF st(1)] st(2,3,4) show ?case by auto
qed

lemma end_streaming:
  assumes "streaming t aid acc s"
  shows "messages (stream_end t s) = final_update aid acc (messages s)"
    and "isLoading (stream_end t s) = False"
    and "error (stream_end t s) = error s"
    and "settled (turns (stream_end t s) ! t) = Fulfilled"
  using assms
  by (auto simp: streaming_def stream_end_def live_def Let_def settle_def finally_block_def)

lemma throw_streaming:
  assumes "streaming t aid acc s" "\<not> is_AbortError e"
  shows "messages (stream_throw t e s) = remove_loading aid (messages s)"
    and "isLoading (stream_throw t e s) = False"
    and "error (stream_throw t e s) = Some (errorMessage e)"
    and "settled (turns (stream_throw t e s) ! t) = Fulfilled"
  using assms
  by (auto simp: streaming_def stream_throw_def live_def Let_def catch_block_def finally_block_def)

lemma llm_ready_send_updates [simp]: "llm_ready (send_updates u l s) = llm_ready s"
  by (simp add: llm_ready_def send_updates_def split: option.splits)

lemma llm_ready_retry_updates [simp]: "llm_ready (retry_updates l s) = llm_ready s"
  by (simp add: llm_ready_def retry_updates_def split: option.splits)

lemma turns_send_updates [simp]: "turns (send_updates u l s) = turns s"
  by (simp add: send_updates_def)

lemma turns_retry_updates [simp]: "turns (retry_updates l s) = turns s"
  by (simp add: retry_updates_def)

lemma messages_send_updates [simp]: "messages (send_updates u l s) = messages s @ [u, l]"
  by (simp add: send_updates_def)

lemma messages_retry_updates [simp]:
  "messages (retry_updates l s) = drop_trailing_assistant (messages s) @ [l]"
  by (simp add: retry_updates_def)

lemma sendMessage_accepted:
  assumes "trim input \<noteq> [] \<or> has_length imgs" "\<not> isLoading s"
  shows "sendMessage input imgs uid utime aid atime s =
     open_stream aid (map convertToLLMMessage (messages s @ [new_userMessage uid input utime imgs]))
       (send_updates (new_userMessage uid input utime imgs) (new_loadingMessage aid atime) s)"
  using assms by (auto simp: sendMessage_def Let_def)

lemma retry_accepted:
  assumes "find (\<lambda>msg. role msg = User) (rev (messages s)) = Some lu" "\<not> isLoading s"
  shows "retryLastMessage aid atime s =
     open_stream aid (map convertToLLMMessage (retry_history (messages s) lu))
       (retry_updates (new_loadingMessage aid atime) s)"
  using assms by (simp add: retryLastMessage_def)

lemma send_streaming:
  assumes "trim input \<noteq> [] \<or> has_length imgs" "\<not> isLoading s" "llm_ready s"
  shows "streaming (length (turns s)) aid [] (sendMessage input imgs uid utime aid atime s)"
  using open_stream_streaming[of "send_updates (new_userMessage uid input utime imgs) (new_loadingMessage aid atime) s" aid]
    assms by (simp add: sendMessage_accepted)

lemma send_messages:
  assumes "trim input \<noteq> [] \<or> has_length imgs" "\<not> isLoading s" "llm_ready s"
  shows "messages (sendMessage input imgs uid utime aid atime s) =
    messages s @ [new_userMessage uid input utime imgs, new_loadingMessage aid atime]"
  using assms by (simp add: sendMessage_accepted open_stream_messages)

lemma retry_streaming:
  assumes "find (\<lambda>msg. role msg = User) (rev (messages s)) = Some lu" "\<not> isLoading s" "llm_ready s"
  shows "streaming (length (turns s)) aid [] (retryLastMessage aid atime s)"
  using open_stream_streaming[of "retry_updates (new_loadingMessage aid atime) s" aid]
    assms by (simp add: retry_accepted)

lemma retry_messages:
  assumes "find (\<lambda>msg. role msg = User) (rev (messages s)) = Some lu" "\<not> isLoading s" "llm_ready s"
  shows "messages (retryLastMessage aid atime s) =
    drop_trailing_assistant (messages s) @ [new_loadingMessage aid atime]"
  using assms by (simp add: retry_accepted open_stream_messages)

lemma last_final_update:
  "last (final_update aid acc (xs @ [new_loadingMessage aid atime])) =
     (new_loadingMessage aid atime)\<lparr>content := (if acc = [] then ''No response generated.'' else acc),
        msg_isLoading := Some False\<rparr>"
  by (simp add: final_update_def new_loadingMessage_def)

lemma last_merge_chunk:
  "last (merge_chunk aid acc (xs @ [new_loadingMessage aid atime])) =
     (new_loadingMessage aid atime)\<lparr>content := acc, msg_isLoading := Some False\<rparr>"
  by (simp add: merge_chunk_def new_loadingMessage_def)

lemma run_stream_events:
  assumes "streaming t aid [] s"
  shows "messages (run s (stream_events t fs)) = final_update aid (concat fs) (messages s)"
    and "isLoading (run s (stream_events t fs)) = False"
proof -
  from run_chunks[OF assms, of fs]
  have st: "streaming t aid (concat fs) (run s (map (Chunk t) fs))"
    and m: "messages (run s (map (Chunk t) fs)) =
       (if fs = [] then messages s else merge_chunk aid (concat fs) (messages s))"
    by simp_all
  show "messages (run s (stream_events t fs)) = final_update aid (concat fs) (messages s)"
    by (simp add: stream_events_def run_append end_streaming(1)[OF st] m)
  show "isLoading (run s (stream_events t fs)) = False"
    by (simp add: stream_events_def run_append end_streaming(2)[OF st])
qed

lemma env_with_key_ready: "llm_ready (initial env_with_key)"
  by (simp add: llm_ready_def initial_def env_with_key_def createFromEnvironment_def or_else_def
      getConfigForProvider_def registry_create_def builtin_factories_def new_GoogleGenAIProvider_def)

lemma trim_hi: "trim ''hi'' = ''hi''"
  by (simp add: trim_def is_ws_def)

lemma remove_loading_append_loading:
  "remove_loading aid (xs @ [u, new_loadingMessage aid atime]) = remove_loading aid (xs @ [u])"
  by (simp add: remove_loading_def new_loadingMessage_def)

lemma remove_loading_fresh:
  "aid \<notin> set (map msg_id xs) \<Longrightarrow> remove_loading aid xs = xs"
  by (induction xs) (auto simp: remove_loading_def)

lemma send_turn_last:
  assumes "llm_ready s" and "\<not> isLoading s" and "trim input \<noteq> [] \<or> has_length imgs"
  shows "last (messages (run s (SendMessage input imgs uid utime aid atime
                                 # stream_events (length (turns s)) fragments)))
           = \<lparr>msg_id = aid,
              content = (if concat fragments = [] then ''No response generated.'' else concat fragments),
              role = Assistant, timestamp = atime, msg_isLoading = Some False, images = None\<rparr>"
  using run_stream_events(1)[OF send_streaming[OF assms(3,2,1)], where fs = fragments]
    send_messages[OF assms(3,2,1)]
    last_final_update[of aid "concat fragments" "messages s @ [new_userMessage uid input utime imgs]" atime]
  by (simp add: new_loadingMessage_def)

lemma retry_turn_last:
  assumes "llm_ready s" and "\<not> isLoading s"
      and "find (\<lambda>msg. role msg = User) (rev (messages s)) = Some lu"
  shows "last (messages (run s (RetryLastMessage aid atime
                                 # stream_events (length (turns s)) fragments)))
           = \<lparr>msg_id = aid,
              content = (if concat fragments = [] then ''No response generated.'' else concat fragments),
              role = Assistant, timestamp = atime, msg_isLoading = Some False, images = None\<rparr>"
  using run_stream_events(1)[OF retry_streaming[OF assms(3,2,1)], where fs = fragments]
    retry_messages[OF assms(3,2,1)]
    last_final_update[of aid "concat fragments" "drop_trailing_assistant (messages s)" atime]
  by (simp add: new_loadingMessage_def)

lemma send_first_chunk_last:
  assumes "llm_ready s" and "\<not> isLoading s" and "trim input \<noteq> [] \<or> has_length imgs"
  shows "last (messages (run s [SendMessage input imgs uid utime aid atime,
                                Chunk (length (turns s)) fragment]))
           = \<lparr>msg_id = aid, content = fragment, role = Assistant, timestamp = atime,
              msg_isLoading = Some False, images = None\<rparr>"
  using chunk_streaming(2)[OF send_streaming[OF assms(3,2,1)], where c = fragment]
    send_messages[OF assms(3,2,1)]
    last_merge_chunk[of aid fragment "messages s @ [new_userMessage uid input utime imgs]" atime]
  by (simp add: new_loadingMessage_def)

lemma initial_idle: "\<not> isLoading (initial e)" "turns (initial e) = []" "messages (initial e) = []"
  by (simp_all add: initial_def)

lemma trim_blank: "trim ''  '' = []"
  by (simp add: trim_def is_ws_def)

lemma retry_first_chunk_last:
  assumes "llm_ready s" and "\<not> isLoading s"
      and "find (\<lambda>msg. role msg = User) (rev (messages s)) = Some lu"
  shows "last (messages (run s [RetryLastMessage aid atime, Chunk (length (turns s)) fragment]))
           = \<lparr>msg_id = aid, content = fragment, role = Assistant, timestamp = atime,
              msg_isLoading = Some False, images = None\<rparr>"
  using chunk_streaming(2)[OF retry_streaming[OF assms(3,2,1)], where c = fragment]
    retry_messages[OF assms(3,2,1)]
    last_merge_chunk[of aid fragment "drop_trailing_assistant (messages s)" atime]
  by (simp add: new_loadingMessage_def)

lemma run_stream_throw:
  assumes "streaming t aid [] s" and "\<not> is_AbortError err"
  shows "messages (run s (map (Chunk t) fragments @ [StreamThrow t err]))
           = remove_loading aid (messages s)"
    and "error (run s (map (Chunk t) fragments @ [StreamThrow t err])) = Some (errorMessage err)"
    and "isLoading (run s (map (Chunk t) fragments @ [StreamThrow t err])) = False"
    and "settled (turns (run s (map (Chunk t) fragments @ [StreamThrow t err])) ! t) = Fulfilled"
proof -
  let ?s2 = "run s (map (Chunk t) fragments)"
  from run_chunks[OF assms(1), of fragments]
  have st2: "streaming t aid (concat fragments) ?s2"
    and m2: "messages ?s2 = (if fragments = [] then messages s
                              else merge_chunk aid (concat fragments) (messages s))"
    by simp_all
  show "messages (run s (map (Chunk t) fragments @ [StreamThrow t err]))
           = remove_loading aid (messages s)"
    by (simp add: run_append throw_streaming(1)[OF st2 assms(2)] m2)
  show "error (run s (map (Chunk t) fragments @ [StreamThrow t err])) = Some (errorMessage err)"
    by (simp add: run_append throw_streaming(3)[OF st2 assms(2)])
  show "isLoading (run s (map (Chunk t) fragments @ [StreamThrow t err])) = False"
    by (simp add: run_append throw_streaming(2)[OF st2 assms(2)])
  show "settled (turns (run s (map (Chunk t) fragments @ [StreamThrow t err])) ! t) = Fulfilled"
    by (simp add: run_append throw_streaming(4)[OF st2 assms(2)])
qed

lemma remove_loading_placeholder:
  "remove_loading aid (xs @ [new_loadingMessage aid atime]) = remove_loading aid xs"
  by (simp add: remove_loading_def new_loadingMessage_def)

lemma remove_loading_without:
  "m \<in> set (remove_loading aid xs) \<Longrightarrow> msg_id m \<noteq> aid"
  by (simp add: remove_loading_def)

lemma createFromEnvironment_not_abort:
  "createFromEnvironment e = Inl err \<Longrightarrow> \<not> is_AbortError err"
  by (auto simp: createFromEnvironment_def getConfigForProvider_def registry_create_def
      builtin_factories_def new_GoogleGenAIProvider_def new_OpenAIProvider_def new_Error_def
      is_AbortError_def Let_def split: if_splits sum.splits option.splits)

lemma open_stream_failed:
  assumes "\<not> llm_ready s"
  shows "\<exists>err. \<not> is_AbortError err \<and>
           open_stream aid h s = catch_block aid err (new_AbortController (abort_current s)) \<and>
           createFromEnvironment (env s) = Inl err"
proof -
  let ?s1 = "new_AbortController (abort_current s)"
  have p: "llmProvider ?s1 = None" and e: "env ?s1 = env s"
    using assms by (auto simp: llm_ready_def new_AbortController_def abort_current_def
        split: option.splits)
  from assms obtain err where err: "createFromEnvironment (env s) = Inl err"
    by (auto simp: llm_ready_def split: option.splits sum.splits)
  have "getLLM ?s1 = (Inl err, ?s1)"
    by (simp add: getLLM_def p e err)
  then have "open_stream aid h s = catch_block aid err ?s1"
    by (simp add: open_stream_def)
  with createFromEnvironment_not_abort[OF err] err show ?thesis
    by blast
qed

lemma messages_new_controller [simp]:
  "messages (new_AbortController (abort_current s)) = messages s"
  by (simp add: new_AbortController_def abort_current_def split: option.splits)

lemma send_without_provider:
  assumes "trim input \<noteq> [] \<or> has_length imgs" and "\<not> isLoading s" and "\<not> llm_ready s"
  shows "\<exists>err. createFromEnvironment (env s) = Inl err \<and>
           messages (sendMessage input imgs uid utime aid atime s)
             = remove_loading aid (messages s @ [new_userMessage uid input utime imgs]) \<and>
           error (sendMessage input imgs uid utime aid atime s) = Some (errorMessage err) \<and>
           \<not> isLoading (sendMessage input imgs uid utime aid atime s)"
proof -
  let ?u = "new_userMessage uid input utime imgs"
  let ?l = "new_loadingMessage aid atime"
  have nr: "\<not> llm_ready (send_updates ?u ?l s)"
    using assms(3) by simp
  from open_stream_failed[OF nr, of aid "map convertToLLMMessage (messages s @ [?u])"]
  obtain err where na: "\<not> is_AbortError err"
    and eq: "open_stream aid (map convertToLLMMessage (messages s @ [?u])) (send_updates ?u ?l s)
             = catch_block aid err (new_AbortController (abort_current (send_updates ?u ?l s)))"
    and ce: "createFromEnvironment (env (send_updates ?u ?l s)) = Inl err"
    by blast
  have ce': "createFromEnvironment (env s) = Inl err"
    using ce by (simp add: send_updates_def)
  have se: "sendMessage input imgs uid utime aid atime s
            = catch_block aid err (new_AbortController (abort_current (send_updates ?u ?l s)))"
    using sendMessage_accepted[OF assms(1,2)] eq by simp
  have m: "messages (sendMessage input imgs uid utime aid atime s)
             = remove_loading aid (messages s @ [?u])"
    using na remove_loading_append_loading[of aid "messages s" ?u atime]
    by (simp add: se catch_block_def finally_block_def)
  have e: "error (sendMessage input imgs uid utime aid atime s) = Some (errorMessage err)"
    using na by (simp add: se catch_block_def finally_block_def)
  have l: "\<not> isLoading (sendMessage input imgs uid utime aid atime s)"
    using na by (simp add: se catch_block_def finally_block_def)
  from ce' m e l show ?thesis
    by blast
qed

lemma send_with_provider:
  assumes "trim input \<noteq> [] \<or> has_length imgs" and "\<not> isLoading s" and "llm_ready s"
  shows "isLoading (sendMessage input imgs uid utime aid atime s)"
    and "error (sendMessage input imgs uid utime aid atime s) = None"
  using assms open_stream_flags[of "send_updates (new_userMessage uid input utime imgs) (new_loadingMessage aid atime) s" aid]
  by (simp_all add: sendMessage_accepted) (simp_all add: send_updates_def)

lemma env_without_key_fails:
  "createFromEnvironment env_without_key = Inl (new_Error ''Google GenAI API key is required'')"
  by code_simp

lemma env_without_key_not_ready: "\<not> llm_ready (initial env_without_key)"
  by (simp add: llm_ready_def initial_def env_without_key_fails)

lemma after_one_turn:
  "(trim ''more'' \<noteq> [] \<or> has_length (None :: ImageAttachment list option)) \<and>
   \<not> isLoading (run (initial env_with_key)
      [SendMessage ''hi'' None ''u1'' 1 ''a1'' 2, Chunk 0 ''yo'', StreamEnd 0]) \<and>
   list_all has_settled (turns (run (initial env_with_key)
      [SendMessage ''hi'' None ''u1'' 1 ''a1'' 2, Chunk 0 ''yo'', StreamEnd 0]))"
  by code_simp

lemma after_one_turn_ready:
  "llm_ready (run (initial env_with_key)
      [SendMessage ''hi'' None ''u1'' 1 ''a1'' 2, Chunk 0 ''yo'', StreamEnd 0])"
  by code_simp

lemma after_one_turn_messages:
  "messages (run (initial env_with_key)
      [SendMessage ''hi'' None ''u1'' 1 ''a1'' 2, Chunk 0 ''yo'', StreamEnd 0])
   = [\<lparr>msg_id = ''u1'', content = ''hi'', role = User, timestamp = 1,
         msg_isLoading = None, images = None\<rparr>,
        \<lparr>msg_id = ''a1'', content = ''yo'', role = Assistant, timestamp = 2,
         msg_isLoading = Some False, images = None\<rparr>]"
  by code_simp

lemma trim_more: "trim ''more'' = ''more''"
  by code_simp

section \<open>The claims about the conversation controller\<close>

text \<open>
  C1, as amended. A call of \<^verbatim>\<open>sendMessage\<close> whose text is not empty after trimming, or
  that brings images, made while no turn is in flight (\<^verbatim>\<open>isLoading\<close> is false and every
  stream opened so far has ended): when \<^verbatim>\<open>getLLM\<close> returns a provider, the message list
  is the list before the call with the user message and after it the loading assistant
  message appended, \<^verbatim>\<open>isLoading\<close> is true and \<^verbatim>\<open>error\<close> is cleared; when \<^verbatim>\<open>getLLM\<close> throws,
  the \<^verbatim>\<open>catch\<close> block has removed the placeholder again, so that (its id being new) only
  the user message is appended, \<^verbatim>\<open>error\<close> holds the message of the exception and
  \<^verbatim>\<open>isLoading\<close> is false. With empty text and no images, or while \<^verbatim>\<open>isLoading\<close> is true,
  the call changes nothing.
\<close>

theorem C1_sendMessage_appends:
  "((trim input \<noteq> [] \<or> has_length imgs) \<and> \<not> isLoading s \<and> list_all has_settled (turns s) \<longrightarrow>
      (llm_ready s \<longrightarrow>
         messages (sendMessage input imgs uid utime aid atime s)
           = messages s @
             [\<lparr>msg_id = uid, content = trim input, role = User, timestamp = utime,
               msg_isLoading = None, images = imgs\<rparr>,
              \<lparr>msg_id = aid, content = [], role = Assistant, timestamp = atime,
               msg_isLoading = Some True, images = None\<rparr>] \<and>
         isLoading (sendMessage input imgs uid utime aid atime s) \<and>
         error (sendMessage input imgs uid utime aid atime s) = None) \<and>
      (\<not> llm_ready s \<longrightarrow>
         messages (sendMessage input imgs uid utime aid atime s)
           = remove_loading aid
               (messages s @
                [\<lparr>msg_id = uid, content = trim input, role = User, timestamp = utime,
                  msg_isLoading = None, images = imgs\<rparr>]) \<and>
         (uid \<noteq> aid \<and> aid \<notin> set (map msg_id (messages s)) \<longrightarrow>
            messages (sendMessage input imgs uid utime aid atime s)
              = messages s @
                [\<lparr>msg_id = uid, content = trim input, role = User, timestamp = utime,
                  msg_isLoading = None, images = imgs\<rparr>]) \<and>
         (\<exists>err. createFromEnvironment (env s) = Inl err \<and>
                error (sendMessage input imgs uid utime aid atime s) = Some (errorMessage err)) \<and>
         \<not> isLoading (sendMessage input imgs uid utime aid atime s))) \<and>
   ((trim input = [] \<and> \<not> has_length imgs) \<or> isLoading s \<longrightarrow>
      sendMessage input imgs uid utime aid atime s = s)"
proof (intro conjI impI)
  assume "(trim input = [] \<and> \<not> has_length imgs) \<or> isLoading s"
  then show "sendMessage input imgs uid utime aid atime s = s"
    by (auto simp: sendMessage_def)
next
  assume a: "(trim input \<noteq> [] \<or> has_length imgs) \<and> \<not> isLoading s \<and> list_all has_settled (turns s)"
  then have acc: "trim input \<noteq> [] \<or> has_length imgs" and idle: "\<not> isLoading s"
    by simp_all
  {
    assume r: "llm_ready s"
    from send_messages[OF acc idle r, of uid utime aid atime]
    show "messages (sendMessage input imgs uid utime aid atime s)
           = messages s @
             [\<lparr>msg_id = uid, content = trim input, role = User, timestamp = utime,
               msg_isLoading = None, images = imgs\<rparr>,
              \<lparr>msg_id = aid, content = [], role = Assistant, timestamp = atime,
               msg_isLoading = Some True, images = None\<rparr>]"
      by (simp add: new_userMessage_def new_loadingMessage_def)
    from send_with_provider[OF acc idle r]
    show "isLoading (sendMessage input imgs uid utime aid atime s)"
      and "error (sendMessage input imgs uid utime aid atime s) = None"
      by simp_all
  }
  {
    assume nr: "\<not> llm_ready s"
    from send_without_provider[OF acc idle nr, of uid utime aid atime]
    obtain err where ce: "createFromEnvironment (env s) = Inl err"
      and m: "messages (sendMessage input imgs uid utime aid atime s)
             = remove_loading aid (messages s @ [new_userMessage uid input utime imgs])"
      and e: "error (sendMessage input imgs uid utime aid atime s) = Some (errorMessage err)"
      and l: "\<not> isLoading (sendMessage input imgs uid utime aid atime s)"
      by blast
    from m show m': "messages (sendMessage input imgs uid utime aid atime s)
           = remove_loading aid
               (messages s @
                [\<lparr>msg_id = uid, content = trim input, role = User, timestamp = utime,
                  msg_isLoading = None, images = imgs\<rparr>])"
      by (simp add: new_userMessage_def)
    from ce e show "\<exists>err. createFromEnvironment (env s) = Inl err \<and>
                error (sendMessage input imgs uid utime aid atime s) = Some (errorMessage err)"
      by blast
    from l show "\<not> isLoading (sendMessage input imgs uid utime aid atime s)" .
    assume "uid \<noteq> aid \<and> aid \<notin> set (map msg_id (messages s))"
    then show "messages (sendMessage input imgs uid utime aid atime s)
              = messages s @
                [\<lparr>msg_id = uid, content = trim input, role = User, timestamp = utime,
                  msg_isLoading = None, images = imgs\<rparr>]"
      using remove_loading_fresh[of aid "messages s @
                [\<lparr>msg_id = uid, content = trim input, role = User, timestamp = utime,
                  msg_isLoading = None, images = imgs\<rparr>]"]
      by (auto simp: m')
  }
qed


theorem C1_sendMessage_appends_witness:
  "messages (sendMessage ''hi'' None ''u1'' 1 ''a1'' 2 (initial env_with_key))
     = [\<lparr>msg_id = ''u1'', content = ''hi'', role = User, timestamp = 1,
         msg_isLoading = None, images = None\<rparr>,
        \<lparr>msg_id = ''a1'', content = [], role = Assistant, timestamp = 2,
         msg_isLoading = Some True, images = None\<rparr>] \<and>
   isLoading (sendMessage ''hi'' None ''u1'' 1 ''a1'' 2 (initial env_with_key)) \<and>
   messages (sendMessage ''hi'' None ''u1'' 1 ''a1'' 2 (initial env_without_key))
     = [\<lparr>msg_id = ''u1'', content = ''hi'', role = User, timestamp = 1,
         msg_isLoading = None, images = None\<rparr>] \<and>
   error (sendMessage ''hi'' None ''u1'' 1 ''a1'' 2 (initial env_without_key))
     = Some ''Google GenAI API key is required'' \<and>
   \<not> isLoading (sendMessage ''hi'' None ''u1'' 1 ''a1'' 2 (initial env_without_key)) \<and>
   sendMessage ''  '' None ''u1'' 1 ''a1'' 2 (initial env_with_key) = initial env_with_key \<and>
   sendMessage ''again'' None ''u2'' 3 ''a2'' 4
       (sendMessage ''hi'' None ''u1'' 1 ''a1'' 2 (initial env_with_key))
     = sendMessage ''hi'' None ''u1'' 1 ''a1'' 2 (initial env_with_key) \<and>
   messages (sendMessage ''more'' None ''u2'' 3 ''a2'' 4
       (run (initial env_with_key)
          [SendMessage ''hi'' None ''u1'' 1 ''a1'' 2, Chunk 0 ''yo'', StreamEnd 0]))
     = [\<lparr>msg_id = ''u1'', content = ''hi'', role = User, timestamp = 1,
         msg_isLoading = None, images = None\<rparr>,
        \<lparr>msg_id = ''a1'', content = ''yo'', role = Assistant, timestamp = 2,
         msg_isLoading = Some False, images = None\<rparr>,
        \<lparr>msg_id = ''u2'', content = ''more'', role = User, timestamp = 3,
         msg_isLoading = None, images = None\<rparr>,
        \<lparr>msg_id = ''a2'', content = [], role = Assistant, timestamp = 4,
         msg_isLoading = Some True, images = None\<rparr>]"
proof -
  let ?none = "None :: ImageAttachment list option"
  let ?s1 = "sendMessage ''hi'' None ''u1'' 1 ''a1'' 2 (initial env_with_key)"
  let ?s2 = "sendMessage ''hi'' None ''u1'' 1 ''a1'' 2 (initial env_without_key)"
  let ?s3 = "run (initial env_with_key)
               [SendMessage ''hi'' None ''u1'' 1 ''a1'' 2, Chunk 0 ''yo'', StreamEnd 0]"
  have a: "(trim ''hi'' \<noteq> [] \<or> has_length ?none) \<and> \<not> isLoading (initial env_with_key) \<and>
           list_all has_settled (turns (initial env_with_key))"
    by (simp add: trim_hi initial_idle)
  have a': "(trim ''hi'' \<noteq> [] \<or> has_length ?none) \<and> \<not> isLoading (initial env_without_key) \<and>
           list_all has_settled (turns (initial env_without_key))"
    by (simp add: trim_hi initial_idle)
  have b: "(trim ''  '' = [] \<and> \<not> has_length ?none) \<or> isLoading (initial env_with_key)"
    by (simp add: trim_blank has_length_def)
  have f: "''u1'' \<noteq> ''a1'' \<and> ''a1'' \<notin> set (map msg_id (messages (initial env_without_key)))"
    by (simp add: initial_idle)
  from C1_sendMessage_appends[where input = "''hi''" and imgs = None and s = "initial env_with_key"
      and uid = "''u1''" and utime = 1 and aid = "''a1''" and atime = 2] a env_with_key_ready
  have 1: "messages ?s1 = messages (initial env_with_key) @
             [\<lparr>msg_id = ''u1'', content = trim ''hi'', role = User, timestamp = 1,
               msg_isLoading = None, images = None\<rparr>,
              \<lparr>msg_id = ''a1'', content = [], role = Assistant, timestamp = 2,
               msg_isLoading = Some True, images = None\<rparr>]"
    and 2: "isLoading ?s1"
    by blast+
  from C1_sendMessage_appends[where input = "''hi''" and imgs = None and s = "initial env_without_key"
      and uid = "''u1''" and utime = 1 and aid = "''a1''" and atime = 2] a' f env_without_key_not_ready
  have 3: "messages ?s2 = messages (initial env_without_key) @
             [\<lparr>msg_id = ''u1'', content = trim ''hi'', role = User, timestamp = 1,
               msg_isLoading = None, images = None\<rparr>]"
    and 4: "\<exists>err. createFromEnvironment (env (initial env_without_key)) = Inl err \<and>
                  error ?s2 = Some (errorMessage err)"
    and 5: "\<not> isLoading ?s2"
    by blast+
  from 4 have 6: "error ?s2 = Some ''Google GenAI API key is required''"
    by (auto simp: initial_def env_without_key_fails new_Error_def errorMessage_def)
  from C1_sendMessage_appends[where input = "''  ''" and imgs = None and s = "initial env_with_key"
      and uid = "''u1''" and utime = 1 and aid = "''a1''" and atime = 2] b
  have 7: "sendMessage ''  '' None ''u1'' 1 ''a1'' 2 (initial env_with_key) = initial env_with_key"
    by blast
  from C1_sendMessage_appends[where input = "''again''" and imgs = None and s = ?s1
      and uid = "''u2''" and utime = 3 and aid = "''a2''" and atime = 4] 2
  have 8: "sendMessage ''again'' None ''u2'' 3 ''a2'' 4 ?s1 = ?s1"
    by blast
  from C1_sendMessage_appends[where input = "''more''" and imgs = None and s = ?s3
      and uid = "''u2''" and utime = 3 and aid = "''a2''" and atime = 4]
    after_one_turn after_one_turn_ready
  have "messages (sendMessage ''more'' None ''u2'' 3 ''a2'' 4 ?s3) = messages ?s3 @
             [\<lparr>msg_id = ''u2'', content = trim ''more'', role = User, timestamp = 3,
               msg_isLoading = None, images = None\<rparr>,
              \<lparr>msg_id = ''a2'', content = [], role = Assistant, timestamp = 4,
               msg_isLoading = Some True, images = None\<rparr>]"
    by blast
  then have 9: "messages (sendMessage ''more'' None ''u2'' 3 ''a2'' 4 ?s3)
     = [\<lparr>msg_id = ''u1'', content = ''hi'', role = User, timestamp = 1,
         msg_isLoading = None, images = None\<rparr>,
        \<lparr>msg_id = ''a1'', content = ''yo'', role = Assistant, timestamp = 2,
         msg_isLoading = Some False, images = None\<rparr>,
        \<lparr>msg_id = ''u2'', content = ''more'', role = User, timestamp = 3,
         msg_isLoading = None, images = None\<rparr>,
        \<lparr>msg_id = ''a2'', content = [], role = Assistant, timestamp = 4,
         msg_isLoading = Some True, images = None\<rparr>]"
    by (simp only: after_one_turn_messages trim_more append.simps)
  have 10: "messages ?s1
     = [\<lparr>msg_id = ''u1'', content = ''hi'', role = User, timestamp = 1,
         msg_isLoading = None, images = None\<rparr>,
        \<lparr>msg_id = ''a1'', content = [], role = Assistant, timestamp = 2,
         msg_isLoading = Some True, images = None\<rparr>]"
    using 1 by (simp add: initial_idle trim_hi)
  have 11: "messages ?s2
     = [\<lparr>msg_id = ''u1'', content = ''hi'', role = User, timestamp = 1,
         msg_isLoading = None, images = None\<rparr>]"
    using 3 by (simp add: initial_idle trim_hi)
  from 10 2 11 6 5 7 8 9 show ?thesis
    by (intro conjI)
qed

text \<open>
  C1 as stated fails, twice. With no API key in the environment \<^verbatim>\<open>getLLM\<close> throws, and
  a call from the initial state (no turn in flight) appends one message, the user
  message, not two. And on the run where a message is sent, the chat is cleared while
  its stream is open, a second message is sent and the first stream ends, the second
  turn is in flight and \<^verbatim>\<open>isLoading\<close> is false: a call of \<^verbatim>\<open>sendMessage\<close> there is accepted
  and changes the message list.
\<close>

theorem C1_sendMessage_counterexample:
  "\<not> isLoading (initial env_without_key) \<and>
   turns (initial env_without_key) = [] \<and>
   messages (initial env_without_key) = [] \<and>
   trim ''hi'' = ''hi'' \<and>
   messages (sendMessage ''hi'' None ''u1'' 1 ''a1'' 2 (initial env_without_key))
     = [\<lparr>msg_id = ''u1'', content = ''hi'', role = User, timestamp = 1,
         msg_isLoading = None, images = None\<rparr>] \<and>
   length (messages (sendMessage ''hi'' None ''u1'' 1 ''a1'' 2 (initial env_without_key)))
     \<noteq> length (messages (initial env_without_key)) + 2 \<and>
   live 1 (run (initial env_with_key)
             [SendMessage ''a'' None ''u1'' 1 ''a1'' 1,
              ClearChat,
              SendMessage ''b'' None ''u2'' 2 ''a2'' 2,
              StreamEnd 0]) \<and>
   \<not> isLoading (run (initial env_with_key)
             [SendMessage ''a'' None ''u1'' 1 ''a1'' 1,
              ClearChat,
              SendMessage ''b'' None ''u2'' 2 ''a2'' 2,
              StreamEnd 0]) \<and>
   messages (run (initial env_with_key)
             [SendMessage ''a'' None ''u1'' 1 ''a1'' 1,
              ClearChat,
              SendMessage ''b'' None ''u2'' 2 ''a2'' 2,
              StreamEnd 0])
     = [\<lparr>msg_id = ''u2'', content = ''b'', role = User, timestamp = 2,
         msg_isLoading = None, images = None\<rparr>,
        \<lparr>msg_id = ''a2'', content = [], role = Assistant, timestamp = 2,
         msg_isLoading = Some True, images = None\<rparr>] \<and>
   messages (sendMessage ''c'' None ''u3'' 3 ''a3'' 3
               (run (initial env_with_key)
                  [SendMessage ''a'' None ''u1'' 1 ''a1'' 1,
                   ClearChat,
                   SendMessage ''b'' None ''u2'' 2 ''a2'' 2,
                   StreamEnd 0]))
     = [\<lparr>msg_id = ''u2'', content = ''b'', role = User, timestamp = 2,
         msg_isLoading = None, images = None\<rparr>,
        \<lparr>msg_id = ''a2'', content = [], role = Assistant, timestamp = 2,
         msg_isLoading = Some True, images = None\<rparr>,
        \<lparr>msg_id = ''u3'', content = ''c'', role = User, timestamp = 3,
         msg_isLoading = None, images = None\<rparr>,
        \<lparr>msg_id = ''a3'', content = [], role = Assistant, timestamp = 3,
         msg_isLoading = Some True, images = None\<rparr>]"
  by code_simp

text \<open>
  C4. In a send turn and in a retry turn whose stream ends without a fragment, the
  assistant message of the turn (the last of the list) ends with the content
  \<^verbatim>\<open>No response generated.\<close> and with \<^verbatim>\<open>isLoading\<close> false.
\<close>

theorem C4_fallback_on_empty_stream:
  assumes "llm_ready s" and "\<not> isLoading s"
  shows "(trim input \<noteq> [] \<or> has_length imgs \<longrightarrow>
            last (messages (run s [SendMessage input imgs uid utime aid atime,
                                   StreamEnd (length (turns s))]))
              = \<lparr>msg_id = aid, content = ''No response generated.'', role = Assistant,
                 timestamp = atime, msg_isLoading = Some False, images = None\<rparr>) \<and>
         (find (\<lambda>msg. role msg = User) (rev (messages s)) \<noteq> None \<longrightarrow>
            last (messages (run s [RetryLastMessage aid atime, StreamEnd (length (turns s))]))
              = \<lparr>msg_id = aid, content = ''No response generated.'', role = Assistant,
                 timestamp = atime, msg_isLoading = Some False, images = None\<rparr>)"
proof (intro conjI impI)
  assume a: "trim input \<noteq> [] \<or> has_length imgs"
  from send_turn_last[OF assms a, where fragments = "[]"]
  show "last (messages (run s [SendMessage input imgs uid utime aid atime,
                               StreamEnd (length (turns s))]))
              = \<lparr>msg_id = aid, content = ''No response generated.'', role = Assistant,
                 timestamp = atime, msg_isLoading = Some False, images = None\<rparr>"
    by (simp add: stream_events_def)
next
  assume "find (\<lambda>msg. role msg = User) (rev (messages s)) \<noteq> None"
  then obtain lu where lu: "find (\<lambda>msg. role msg = User) (rev (messages s)) = Some lu"
    by blast
  from retry_turn_last[OF assms lu, where fragments = "[]"]
  show "last (messages (run s [RetryLastMessage aid atime, StreamEnd (length (turns s))]))
              = \<lparr>msg_id = aid, content = ''No response generated.'', role = Assistant,
                 timestamp = atime, msg_isLoading = Some False, images = None\<rparr>"
    by (simp add: stream_events_def)
qed

theorem C4_fallback_on_empty_stream_witness:
  "last (messages (run (initial env_with_key)
      [SendMessage ''hi'' None ''u1'' 1 ''a1'' 2, StreamEnd 0]))
     = \<lparr>msg_id = ''a1'', content = ''No response generated.'', role = Assistant,
        timestamp = 2, msg_isLoading = Some False, images = None\<rparr>"
  using C4_fallback_on_empty_stream[OF env_with_key_ready initial_idle(1),
      where input = "''hi''" and imgs = None and uid = "''u1''" and utime = 1
      and aid = "''a1''" and atime = 2]
  by (simp add: trim_hi initial_idle)

text \<open>
  C5, as amended. In a send turn and in a retry turn whose stream yields the fragments
  and ends, the assistant message of the turn ends with the concatenation of the
  fragments in the order they came, when that concatenation is not empty, and with the
  content \<^verbatim>\<open>No response generated.\<close> when it is empty (every fragment was the empty
  string); its \<^verbatim>\<open>isLoading\<close> is false from the first fragment on.
\<close>

theorem C5_fragments_concatenated:
  assumes "llm_ready s" and "\<not> isLoading s"
  shows "(trim input \<noteq> [] \<or> has_length imgs \<longrightarrow>
            last (messages (run s (SendMessage input imgs uid utime aid atime
                                    # stream_events (length (turns s)) fragments)))
              = \<lparr>msg_id = aid,
                 content = (if concat fragments = [] then ''No response generated.''
                            else concat fragments),
                 role = Assistant, timestamp = atime, msg_isLoading = Some False, images = None\<rparr> \<and>
            last (messages (run s [SendMessage input imgs uid utime aid atime,
                                   Chunk (length (turns s)) fragment]))
              = \<lparr>msg_id = aid, content = fragment, role = Assistant, timestamp = atime,
                 msg_isLoading = Some False, images = None\<rparr>) \<and>
         (find (\<lambda>msg. role msg = User) (rev (messages s)) \<noteq> None \<longrightarrow>
            last (messages (run s (RetryLastMessage aid atime
                                    # stream_events (length (turns s)) fragments)))
              = \<lparr>msg_id = aid,
                 content = (if concat fragments = [] then ''No response generated.''
                            else concat fragments),
                 role = Assistant, timestamp = atime, msg_isLoading = Some False, images = None\<rparr> \<and>
            last (messages (run s [RetryLastMessage aid atime, Chunk (length (turns s)) fragment]))
              = \<lparr>msg_id = aid, content = fragment, role = Assistant, timestamp = atime,
                 msg_isLoading = Some False, images = None\<rparr>)"
proof (intro conjI impI)
  assume a: "trim input \<noteq> [] \<or> has_length imgs"
  show "last (messages (run s (SendMessage input imgs uid utime aid atime
                                    # stream_events (length (turns s)) fragments)))
              = \<lparr>msg_id = aid,
                 content = (if concat fragments = [] then ''No response generated.''
                            else concat fragments),
                 role = Assistant, timestamp = atime, msg_isLoading = Some False, images = None\<rparr>"
    by (rule send_turn_last[OF assms a])
  show "last (messages (run s [SendMessage input imgs uid utime aid atime,
                                   Chunk (length (turns s)) fragment]))
              = \<lparr>msg_id = aid, content = fragment, role = Assistant, timestamp = atime,
                 msg_isLoading = Some False, images = None\<rparr>"
    by (rule send_first_chunk_last[OF assms a])
next
  assume "find (\<lambda>msg. role msg = User) (rev (messages s)) \<noteq> None"
  then obtain lu where lu: "find (\<lambda>msg. role msg = User) (rev (messages s)) = Some lu"
    by blast
  show "last (messages (run s (RetryLastMessage aid atime
                                    # stream_events (length (turns s)) fragments)))
              = \<lparr>msg_id = aid,
                 content = (if concat fragments = [] then ''No response generated.''
                            else concat fragments),
                 role = Assistant, timestamp = atime, msg_isLoading = Some False, images = None\<rparr>"
    by (rule retry_turn_last[OF assms lu])
  show "last (messages (run s [RetryLastMessage aid atime, Chunk (length (turns s)) fragment]))
              = \<lparr>msg_id = aid, content = fragment, role = Assistant, timestamp = atime,
                 msg_isLoading = Some False, images = None\<rparr>"
    by (rule retry_first_chunk_last[OF assms lu])
qed

theorem C5_fragments_concatenated_witness:
  "last (messages (run (initial env_with_key)
      (SendMessage ''hi'' None ''u1'' 1 ''a1'' 2 # stream_events 0 [''Hel'', ''lo''])))
     = \<lparr>msg_id = ''a1'', content = ''Hello'', role = Assistant, timestamp = 2,
        msg_isLoading = Some False, images = None\<rparr>"
  using C5_fragments_concatenated[OF env_with_key_ready initial_idle(1),
      where input = "''hi''" and imgs = None and uid = "''u1''" and utime = 1
      and aid = "''a1''" and atime = 2 and fragments = "[''Hel'', ''lo'']"]
  by (simp add: trim_hi initial_idle)

text \<open>
  C5 as stated fails: a stream that yields the one fragment \<^verbatim>\<open>""\<close> and ends leaves
  the content \<^verbatim>\<open>No response generated.\<close>, not the concatenation \<^verbatim>\<open>""\<close>.
\<close>

theorem C5_empty_fragment_counterexample:
  "\<not> (\<forall>fragments. fragments \<noteq> [] \<longrightarrow>
        content (last (messages (run (initial env_with_key)
           (SendMessage ''hi'' None ''u1'' 1 ''a1'' 2 # stream_events 0 fragments))))
        = concat fragments)"
proof
  assume "\<forall>fragments. fragments \<noteq> [] \<longrightarrow>
        content (last (messages (run (initial env_with_key)
           (SendMessage ''hi'' None ''u1'' 1 ''a1'' 2 # stream_events 0 fragments))))
        = concat fragments"
  then have "content (last (messages (run (initial env_with_key)
           (SendMessage ''hi'' None ''u1'' 1 ''a1'' 2 # stream_events 0 [[]])))) = concat [[]]"
    by blast
  then show False
    using send_turn_last[OF env_with_key_ready initial_idle(1),
      where input = "''hi''" and imgs = None and uid = "''u1''" and utime = 1
      and aid = "''a1''" and atime = 2 and fragments = "[[]]"]
    by (simp add: trim_hi initial_idle)
qed

text \<open>
  C6. In a send turn and in a retry turn whose stream throws, after any number of
  fragments, an \<^verbatim>\<open>Error\<close> whose name is not \<^verbatim>\<open>AbortError\<close>: every message with the id
  of the placeholder is removed from the list, so the placeholder is gone and, its id
  being fresh, the list is the one the turn started from without the placeholder;
  \<^verbatim>\<open>error\<close> is the message of the \<^verbatim>\<open>Error\<close>; \<^verbatim>\<open>isLoading\<close> is false; and the promise of
  the call is fulfilled, not rejected.
\<close>

theorem C6_stream_error_removes_placeholder:
  assumes "llm_ready s" and "\<not> isLoading s" and "name \<noteq> ''AbortError''"
      and "sent = run s (SendMessage input imgs uid utime aid atime
                  # map (Chunk (length (turns s))) fragments
                  @ [StreamThrow (length (turns s)) (ErrorObj name msg)])"
      and "retried = run s (RetryLastMessage aid atime
                  # map (Chunk (length (turns s))) fragments
                  @ [StreamThrow (length (turns s)) (ErrorObj name msg)])"
  shows "(trim input \<noteq> [] \<or> has_length imgs \<longrightarrow>
            messages sent = remove_loading aid (messages s @ [new_userMessage uid input utime imgs]) \<and>
            (aid \<notin> set (map msg_id (messages s)) \<and> uid \<noteq> aid \<longrightarrow>
               messages sent = messages s @ [new_userMessage uid input utime imgs]) \<and>
            aid \<notin> set (map msg_id (messages sent)) \<and>
            error sent = Some msg \<and> isLoading sent = False \<and>
            settled (turns sent ! length (turns s)) = Fulfilled) \<and>
         (find (\<lambda>msg. role msg = User) (rev (messages s)) \<noteq> None \<longrightarrow>
            messages retried = remove_loading aid (drop_trailing_assistant (messages s)) \<and>
            (aid \<notin> set (map msg_id (messages s)) \<longrightarrow>
               messages retried = drop_trailing_assistant (messages s)) \<and>
            aid \<notin> set (map msg_id (messages retried)) \<and>
            error retried = Some msg \<and> isLoading retried = False \<and>
            settled (turns retried ! length (turns s)) = Fulfilled)"
proof (intro conjI impI)
  let ?t = "length (turns s)"
  have na: "\<not> is_AbortError (ErrorObj name msg)"
    using assms(3) by (simp add: is_AbortError_def)
  have em: "errorMessage (ErrorObj name msg) = msg"
    by (simp add: errorMessage_def)
  {
    assume a: "trim input \<noteq> [] \<or> has_length imgs"
    let ?s1 = "sendMessage input imgs uid utime aid atime s"
    have sent: "sent = run ?s1 (map (Chunk ?t) fragments @ [StreamThrow ?t (ErrorObj name msg)])"
      by (simp add: assms(4))
    note r = run_stream_throw[OF send_streaming[OF a assms(2,1)] na,
        where fragments = fragments and uid1 = uid and utime1 = utime and atime1 = atime]
    show m: "messages sent = remove_loading aid (messages s @ [new_userMessage uid input utime imgs])"
      using remove_loading_placeholder[of aid "messages s @ [new_userMessage uid input utime imgs]" atime]
      by (simp add: sent r(1) send_messages[OF a assms(2,1)])
    show "error sent = Some msg"
      by (simp add: sent r(2) em)
    show "isLoading sent = False"
      by (simp add: sent r(3))
    show "settled (turns sent ! length (turns s)) = Fulfilled"
      by (simp add: sent r(4))
    show "aid \<notin> set (map msg_id (messages sent))"
      using remove_loading_without[of _ aid "messages s @ [new_userMessage uid input utime imgs]"]
      by (auto simp: m)
    assume "aid \<notin> set (map msg_id (messages s)) \<and> uid \<noteq> aid"
    then have "aid \<notin> set (map msg_id (messages s @ [new_userMessage uid input utime imgs]))"
      by (auto simp: new_userMessage_def)
    from remove_loading_fresh[OF this]
    show "messages sent = messages s @ [new_userMessage uid input utime imgs]"
      by (simp add: m)
  }
  {
    assume "find (\<lambda>msg. role msg = User) (rev (messages s)) \<noteq> None"
    then obtain lu where lu: "find (\<lambda>msg. role msg = User) (rev (messages s)) = Some lu"
      by blast
    let ?s1 = "retryLastMessage aid atime s"
    have retried: "retried = run ?s1 (map (Chunk ?t) fragments @ [StreamThrow ?t (ErrorObj name msg)])"
      by (simp add: assms(5))
    note r = run_stream_throw[OF retry_streaming[OF lu assms(2,1)] na,
        where fragments = fragments and atime1 = atime]
    show m: "messages retried = remove_loading aid (drop_trailing_assistant (messages s))"
      using remove_loading_placeholder[of aid "drop_trailing_assistant (messages s)" atime]
      by (simp add: retried r(1) retry_messages[OF lu assms(2,1)])
    show "error retried = Some msg"
      by (simp add: retried r(2) em)
    show "isLoading retried = False"
      by (simp add: retried r(3))
    show "settled (turns retried ! length (turns s)) = Fulfilled"
      by (simp add: retried r(4))
    show "aid \<notin> set (map msg_id (messages retried))"
      using remove_loading_without[of _ aid "drop_trailing_assistant (messages s)"]
      by (auto simp: m)
    assume f: "aid \<notin> set (map msg_id (messages s))"
    have "set (drop_trailing_assistant (messages s)) \<subseteq> set (messages s)"
      by (auto simp: drop_trailing_assistant_def dest: in_set_butlastD)
    with f have "aid \<notin> set (map msg_id (drop_trailing_assistant (messages s)))"
      by auto
    from remove_loading_fresh[OF this]
    show "messages retried = drop_trailing_assistant (messages s)"
      by (simp add: m)
  }
qed

theorem C6_stream_error_removes_placeholder_witness:
  "messages (run (initial env_with_key)
      [SendMessage ''hi'' None ''u1'' 1 ''a1'' 2, Chunk 0 ''He'',
       StreamThrow 0 (ErrorObj ''Error'' ''network down'')])
     = [new_userMessage ''u1'' ''hi'' 1 None] \<and>
   error (run (initial env_with_key)
      [SendMessage ''hi'' None ''u1'' 1 ''a1'' 2, Chunk 0 ''He'',
       StreamThrow 0 (ErrorObj ''Error'' ''network down'')])
     = Some ''network down'' \<and>
   isLoading (run (initial env_with_key)
      [SendMessage ''hi'' None ''u1'' 1 ''a1'' 2, Chunk 0 ''He'',
       StreamThrow 0 (ErrorObj ''Error'' ''network down'')]) = False"
proof -
  have h3: "trim ''hi'' \<noteq> [] \<or> has_length (None :: ImageAttachment list option)"
    by (simp add: trim_hi)
  have h4: "''Error'' \<noteq> ''AbortError''"
    by simp
  have h5: "''a1'' \<notin> set (map msg_id (messages (initial env_with_key))) \<and> ''u1'' \<noteq> ''a1''"
    by (simp add: initial_idle)
  from C6_stream_error_removes_placeholder[OF env_with_key_ready initial_idle(1) h4 refl refl,
      where input = "''hi''" and imgs = None and uid = "''u1''" and utime = 1 and aid = "''a1''"
      and atime = 2 and fragments = "[''He'']" and msg = "''network down''"] h3 h5
  show ?thesis
    by (simp add: initial_idle remove_loading_def new_userMessage_def)
qed




text \<open>
  C2, on a run of the controller: a message is sent, the chat is cleared while its
  stream is open, a second message is sent, the first stream ends (its \<^verbatim>\<open>finally\<close>
  block sets \<^verbatim>\<open>isLoading\<close> to false while the second turn is pending), and a third
  message is sent. The list then holds two loading placeholders, and the first of them
  is not the last message.
\<close>

theorem C2_two_loading_messages:
  "messages (run (initial env_with_key)
      [SendMessage ''a'' None ''u1'' 1 ''a1'' 1,
       ClearChat,
       SendMessage ''b'' None ''u2'' 2 ''a2'' 2,
       StreamEnd 0,
       SendMessage ''c'' None ''u3'' 3 ''a3'' 3])
   = [new_userMessage ''u2'' ''b'' 2 None, new_loadingMessage ''a2'' 2,
      new_userMessage ''u3'' ''c'' 3 None, new_loadingMessage ''a3'' 3] \<and>
   loading_count (messages (run (initial env_with_key)
      [SendMessage ''a'' None ''u1'' 1 ''a1'' 1,
       ClearChat,
       SendMessage ''b'' None ''u2'' 2 ''a2'' 2,
       StreamEnd 0,
       SendMessage ''c'' None ''u3'' 3 ''a3'' 3])) = 2"
  by code_simp

section \<open>One turn at a time: when the loading invariant holds\<close>

lemma loading_count_append [simp]:
  "loading_count (xs @ ys) = loading_count xs + loading_count ys"
  by (simp add: loading_count_def)

lemma loading_count_Nil [simp]: "loading_count [] = 0"
  by (simp add: loading_count_def)

lemma loading_count_butlast_le: "loading_count (butlast xs) \<le> loading_count xs"
proof (cases "xs = []")
  case True
  then show ?thesis by simp
next
  case False
  then have "loading_count xs = loading_count (butlast xs @ [last xs])"
    by simp
  then show ?thesis
    by (simp del: append_butlast_last_id)
qed

lemma loading_count_merge_le: "loading_count (merge_chunk aid acc xs) \<le> loading_count xs"
  by (induction xs) (auto simp: loading_count_def merge_chunk_def)

lemma loading_count_final_le: "loading_count (final_update aid acc xs) \<le> loading_count xs"
  by (induction xs) (auto simp: loading_count_def final_update_def)

lemma loading_count_remove_le: "loading_count (remove_loading aid xs) \<le> loading_count xs"
  by (induction xs) (auto simp: loading_count_def remove_loading_def)

lemma loading_count_drop_trailing:
  "loading_count xs = 0 \<Longrightarrow> loading_count (drop_trailing_assistant xs) = 0"
  using loading_count_butlast_le[of xs] by (simp add: drop_trailing_assistant_def)

lemma only_last_may_load:
  assumes "xs \<noteq> []" and "msg_id (last xs) = aid" and "loading_count (butlast xs) = 0"
  shows "loading_count (final_update aid acc xs) = 0"
    and "loading_count (remove_loading aid xs) = 0"
    and "loading_count (butlast (merge_chunk aid acc xs)) = 0"
    and "msg_id (last (merge_chunk aid acc xs)) = aid"
    and "merge_chunk aid acc xs \<noteq> []"
proof -
  from assms(1) have xs: "xs = butlast xs @ [last xs]"
    by simp
  have f: "final_update aid acc xs = final_update aid acc (butlast xs) @ final_update aid acc [last xs]"
    using arg_cong[OF xs, of "final_update aid acc"] by (simp add: final_update_def)
  have r: "remove_loading aid xs = remove_loading aid (butlast xs) @ remove_loading aid [last xs]"
    using arg_cong[OF xs, of "remove_loading aid"] by (simp add: remove_loading_def)
  have m: "merge_chunk aid acc xs = merge_chunk aid acc (butlast xs) @ merge_chunk aid acc [last xs]"
    using arg_cong[OF xs, of "merge_chunk aid acc"] by (simp add: merge_chunk_def)
  show "loading_count (final_update aid acc xs) = 0"
    using loading_count_final_le[of aid acc "butlast xs"] assms(2,3)
    by (simp add: f) (simp add: final_update_def loading_count_def)
  show "loading_count (remove_loading aid xs) = 0"
    using loading_count_remove_le[of aid "butlast xs"] assms(2,3)
    by (simp add: r) (simp add: remove_loading_def)
  show "loading_count (butlast (merge_chunk aid acc xs)) = 0"
    using loading_count_merge_le[of aid acc "butlast xs"] assms(3)
    by (simp add: m) (simp add: merge_chunk_def)
  show "msg_id (last (merge_chunk aid acc xs)) = aid"
    using assms(2) by (simp add: m) (simp add: merge_chunk_def)
  show "merge_chunk aid acc xs \<noteq> []"
    using assms(1) by (simp add: merge_chunk_def)
qed

lemma protocol_open_stream:
  assumes "isLoading s" and "list_all has_settled (turns s)"
      and "messages s \<noteq> []" and "msg_id (last (messages s)) = aid"
      and "loading_count (butlast (messages s)) = 0"
  shows "protocol (open_stream aid h s)"
proof (cases "llm_ready s")
  case True
  from open_stream_ready[OF True, of aid h] obtain p where
    "open_stream aid h s =
       s\<lparr>controllers := controllers (abort_current s) @ [False],
         abortControllerRef := Some (length (controllers s)),
         llmProvider := Some p,
         turns := turns s @ [\<lparr>assistantMessageId = aid, accumulatedContent = [],
                    llmMessages = h, settled = Pending\<rparr>]\<rparr>"
    by blast
  then show ?thesis
    using assms by (simp add: protocol_def signal_aborted_def nth_append)
next
  case False
  from open_stream_failed[OF False, of aid h] obtain err where
    na: "\<not> is_AbortError err" and
    eq: "open_stream aid h s = catch_block aid err (new_AbortController (abort_current s))"
    by blast
  have m: "messages (new_AbortController (abort_current s)) = messages s"
    and t: "turns (new_AbortController (abort_current s)) = turns s"
    by (simp_all add: new_AbortController_def abort_current_def split: option.splits)
  show ?thesis
    using only_last_may_load(2)[OF assms(3,4,5)] assms(2) na
    by (simp add: eq catch_block_def finally_block_def protocol_def m t)
qed

lemma protocol_sendMessage: "protocol s \<Longrightarrow> protocol (sendMessage input imgs uid utime aid atime s)"
proof (cases "(trim input = [] \<and> \<not> has_length imgs) \<or> isLoading s")
  case True
  assume "protocol s"
  with True show ?thesis
    by (auto simp: sendMessage_def)
next
  case False
  assume p: "protocol s"
  let ?s1 = "send_updates (new_userMessage uid input utime imgs) (new_loadingMessage aid atime) s"
  from False have eq: "sendMessage input imgs uid utime aid atime s =
      open_stream aid (map convertToLLMMessage (messages s @ [new_userMessage uid input utime imgs])) ?s1"
    by (auto simp: sendMessage_def Let_def)
  from p False have idle: "list_all has_settled (turns s)" "loading_count (messages s) = 0"
    by (auto simp: protocol_def)
  have "protocol (open_stream aid
          (map convertToLLMMessage (messages s @ [new_userMessage uid input utime imgs])) ?s1)"
  proof (rule protocol_open_stream)
    show "isLoading ?s1" by (simp add: send_updates_def)
    show "list_all has_settled (turns ?s1)" using idle(1) by simp
    show "messages ?s1 \<noteq> []" by simp
    show "msg_id (last (messages ?s1)) = aid" by (simp add: new_loadingMessage_def)
    show "loading_count (butlast (messages ?s1)) = 0"
      using idle(2) by (simp add: butlast_append) (simp add: loading_count_def new_userMessage_def)
  qed
  then show ?thesis
    by (simp add: eq)
qed

lemma protocol_retryLastMessage: "protocol s \<Longrightarrow> protocol (retryLastMessage aid atime s)"
proof (cases "find (\<lambda>msg. role msg = User) (rev (messages s))")
  case None
  assume "protocol s"
  with None show ?thesis
    by (simp add: retryLastMessage_def)
next
  case (Some lu)
  assume p: "protocol s"
  show ?thesis
  proof (cases "isLoading s")
    case True
    with p Some show ?thesis
      by (simp add: retryLastMessage_def)
  next
    case False
    let ?s1 = "retry_updates (new_loadingMessage aid atime) s"
    from p False have idle: "list_all has_settled (turns s)" "loading_count (messages s) = 0"
      by (auto simp: protocol_def)
    have "protocol (open_stream aid (map convertToLLMMessage (retry_history (messages s) lu)) ?s1)"
    proof (rule protocol_open_stream)
      show "isLoading ?s1" by (simp add: retry_updates_def)
      show "list_all has_settled (turns ?s1)" using idle(1) by simp
      show "messages ?s1 \<noteq> []" by simp
      show "msg_id (last (messages ?s1)) = aid" by (simp add: new_loadingMessage_def)
      show "loading_count (butlast (messages ?s1)) = 0"
        using loading_count_drop_trailing[OF idle(2)] by (simp add: butlast_append)
    qed
    then show ?thesis
      using Some False by (simp add: retryLastMessage_def)
  qed
qed

lemma protocol_clearChat: "protocol s \<Longrightarrow> \<not> isLoading s \<Longrightarrow> protocol (clearChat s)"
  by (auto simp: protocol_def clearChat_def abort_current_def split: option.splits)

lemma settled_not_live:
  "list_all has_settled tus \<Longrightarrow> t < length tus \<Longrightarrow> settled (tus ! t) \<noteq> Pending"
  by (simp add: list_all_length has_settled_def)

lemma protocol_live:
  assumes "protocol s" and "live t s"
  shows "isLoading s" and "t = length (turns s) - 1" and "turns s \<noteq> []"
proof -
  from assms(2) have t: "t < length (turns s)" "settled (turns s ! t) = Pending"
    by (simp_all add: live_def)
  show l: "isLoading s"
  proof (rule ccontr)
    assume "\<not> isLoading s"
    with assms(1) have "list_all has_settled (turns s)"
      by (simp add: protocol_def)
    from settled_not_live[OF this t(1)] t(2) show False
      by simp
  qed
  with assms(1) have ne: "turns s \<noteq> []" and b: "list_all has_settled (butlast (turns s))"
    by (simp_all add: protocol_def)
  show "turns s \<noteq> []" by (rule ne)
  show "t = length (turns s) - 1"
  proof (rule ccontr)
    assume "t \<noteq> length (turns s) - 1"
    with t(1) have lt: "t < length (butlast (turns s))"
      by simp
    have "butlast (turns s) ! t = turns s ! t"
      using lt by (rule nth_butlast)
    with settled_not_live[OF b lt] t(2) show False
      by simp
  qed
qed

lemma update_last: "tus \<noteq> [] \<Longrightarrow> tus[length tus - Suc 0 := x] = butlast tus @ [x]"
  by (cases tus rule: rev_cases) auto

lemma list_all_settle_last:
  assumes "tus \<noteq> []" and "list_all has_settled (butlast tus)"
  shows "list_all has_settled (tus[length tus - 1 := (tus ! (length tus - 1))\<lparr>settled := Fulfilled\<rparr>])"
  using assms(2) by (simp add: update_last[OF assms(1)] has_settled_def)

lemma protocol_stream_end: "protocol s \<Longrightarrow> protocol (stream_end t s)"
proof (cases "live t s")
  case False
  assume "protocol s"
  with False show ?thesis
    by (simp add: stream_end_def)
next
  case True
  assume p: "protocol s"
  note l = protocol_live[OF p True]
  from p l(1) have b: "list_all has_settled (butlast (turns s))"
    and m: "messages s \<noteq> []"
    and i: "msg_id (last (messages s)) = assistantMessageId (last (turns s))"
    and c: "loading_count (butlast (messages s)) = 0"
    by (simp_all add: protocol_def)
  have la: "turns s ! t = last (turns s)"
    using l(2,3) by (simp add: last_conv_nth)
  from only_last_may_load(1)[OF m i c, of "accumulatedContent (last (turns s))"]
    list_all_settle_last[OF l(3) b]
  show ?thesis
    using True l(2) la
    by (simp add: stream_end_def settle_def finally_block_def protocol_def Let_def)
qed

lemma protocol_stream_throw:
  "protocol s \<Longrightarrow> \<not> is_AbortError err \<Longrightarrow> protocol (stream_throw t err s)"
proof (cases "live t s")
  case False
  assume "protocol s"
  with False show ?thesis
    by (simp add: stream_throw_def)
next
  case True
  assume p: "protocol s" and na: "\<not> is_AbortError err"
  note l = protocol_live[OF p True]
  from p l(1) have b: "list_all has_settled (butlast (turns s))"
    and m: "messages s \<noteq> []"
    and i: "msg_id (last (messages s)) = assistantMessageId (last (turns s))"
    and c: "loading_count (butlast (messages s)) = 0"
    by (simp_all add: protocol_def)
  have la: "turns s ! t = last (turns s)"
    using l(2,3) by (simp add: last_conv_nth)
  from only_last_may_load(2)[OF m i c] list_all_settle_last[OF l(3) b]
  show ?thesis
    using True l(2) la na
    by (simp add: stream_throw_def catch_block_def finally_block_def protocol_def Let_def)
qed

lemma signal_aborted_chunk:
  "signal_aborted (s\<lparr>messages := ms, turns := tus\<rparr>) = signal_aborted s"
  by (simp add: signal_aborted_def split: option.splits)

lemma protocol_stream_chunk: "protocol s \<Longrightarrow> protocol (stream_chunk t chunk s)"
proof (cases "live t s")
  case False
  assume "protocol s"
  with False show ?thesis
    by (simp add: stream_chunk_def)
next
  case True
  assume p: "protocol s"
  note l = protocol_live[OF p True]
  from p l(1) have b: "list_all has_settled (butlast (turns s))"
    and pe: "settled (last (turns s)) = Pending"
    and ab: "\<not> signal_aborted s"
    and m: "messages s \<noteq> []"
    and i: "msg_id (last (messages s)) = assistantMessageId (last (turns s))"
    and c: "loading_count (butlast (messages s)) = 0"
    by (simp_all add: protocol_def)
  have la: "turns s ! t = last (turns s)"
    using l(2,3) by (simp add: last_conv_nth)
  let ?tu = "(last (turns s))\<lparr>accumulatedContent := accumulatedContent (last (turns s)) @ chunk\<rparr>"
  have upd: "(turns s)[length (turns s) - Suc 0 := ?tu] = butlast (turns s) @ [?tu]"
    by (rule update_last[OF l(3)])
  note o = only_last_may_load(3,4,5)[OF m i c,
      of "accumulatedContent (last (turns s)) @ chunk"]
  show ?thesis
    using True l(1,2) la ab b pe o
    by (simp add: stream_chunk_def protocol_def Let_def upd signal_aborted_chunk)
qed

lemma protocol_step: "protocol s \<Longrightarrow> allowed s ev \<Longrightarrow> protocol (step s ev)"
  by (cases ev)
     (simp_all add: allowed_def protocol_sendMessage protocol_retryLastMessage protocol_clearChat
        protocol_stream_chunk protocol_stream_end protocol_stream_throw)

lemma protocol_run: "protocol s \<Longrightarrow> disciplined s evs \<Longrightarrow> protocol (run s evs)"
  by (induction evs arbitrary: s) (simp_all add: protocol_step)

lemma protocol_initial: "protocol (initial e)"
  by (simp add: protocol_def initial_def)

lemma protocol_loading:
  assumes "protocol s"
  shows "loading_count (butlast (messages s)) = 0" and "loading_count (messages s) \<le> 1"
proof -
  show b: "loading_count (butlast (messages s)) = 0"
    using assms loading_count_butlast_le[of "messages s"]
    by (auto simp: protocol_def split: if_splits)
  show "loading_count (messages s) \<le> 1"
  proof (cases "messages s = []")
    case True
    then show ?thesis by simp
  next
    case False
    then have "loading_count (messages s) = loading_count (butlast (messages s) @ [last (messages s)])"
      by simp
    with b show ?thesis
      by (simp del: append_butlast_last_id) (simp add: loading_count_def)
  qed
qed

text \<open>
  On every run from the initial state in which \<^verbatim>\<open>clearChat\<close> is called only while
  \<^verbatim>\<open>isLoading\<close> is false and no stream throws an \<^verbatim>\<open>AbortError\<close>, at most one message is
  loading, and no message but the last is.
\<close>

theorem one_turn_at_a_time_loading_invariant:
  assumes "disciplined (initial e) evs"
  shows "loading_count (messages (run (initial e) evs)) \<le> 1 \<and>
         loading_count (butlast (messages (run (initial e) evs))) = 0"
  using protocol_loading[OF protocol_run[OF protocol_initial assms]] by simp

theorem one_turn_at_a_time_loading_invariant_witness:
  "loading_count (messages (run (initial env_with_key)
      [SendMessage ''a'' None ''u1'' 1 ''a1'' 1, Chunk 0 ''x'', StreamEnd 0, ClearChat,
       SendMessage ''b'' None ''u2'' 2 ''a2'' 2])) \<le> 1 \<and>
   loading_count (butlast (messages (run (initial env_with_key)
      [SendMessage ''a'' None ''u1'' 1 ''a1'' 1, Chunk 0 ''x'', StreamEnd 0, ClearChat,
       SendMessage ''b'' None ''u2'' 2 ''a2'' 2]))) = 0"
proof -
  have d: "disciplined (initial env_with_key)
      [SendMessage ''a'' None ''u1'' 1 ''a1'' 1, Chunk 0 ''x'', StreamEnd 0, ClearChat,
       SendMessage ''b'' None ''u2'' 2 ''a2'' 2]"
    by code_simp
  from one_turn_at_a_time_loading_invariant[OF d] show ?thesis .
qed

section \<open>The claims about the providers\<close>

text \<open>
  C9. With no \<^verbatim>\<open>apiKey\<close> in the configuration, or an empty one, the constructor of
  either provider throws its error; with a non-empty \<^verbatim>\<open>apiKey\<close> it returns a provider,
  and \<^verbatim>\<open>isConfigured()\<close> of that provider is true.
\<close>

theorem C9_constructors_need_apiKey:
  "((apiKey config = None \<or> apiKey config = Some []) \<longrightarrow>
      new_GoogleGenAIProvider config = Inl (new_Error ''Google GenAI API key is required'') \<and>
      new_OpenAIProvider config = Inl (new_Error ''OpenAI API key is required'')) \<and>
   (\<forall>k. apiKey config = Some k \<and> k \<noteq> [] \<longrightarrow>
      (\<exists>p. new_GoogleGenAIProvider config = Inr p \<and> g_isConfigured p) \<and>
      (\<exists>p. new_OpenAIProvider config = Inr p \<and> o_isConfigured p))"
  by (auto simp: new_GoogleGenAIProvider_def new_OpenAIProvider_def g_isConfigured_def
      o_isConfigured_def)

theorem C9_constructors_need_apiKey_witness:
  "new_GoogleGenAIProvider \<lparr>apiKey = None, model = None, baseURL = None\<rparr>
     = Inl (new_Error ''Google GenAI API key is required'') \<and>
   new_OpenAIProvider \<lparr>apiKey = Some [], model = None, baseURL = None\<rparr>
     = Inl (new_Error ''OpenAI API key is required'') \<and>
   (\<exists>p. new_GoogleGenAIProvider \<lparr>apiKey = Some ''key'', model = None, baseURL = None\<rparr> = Inr p
        \<and> g_isConfigured p) \<and>
   (\<exists>p. new_OpenAIProvider \<lparr>apiKey = Some ''key'', model = None, baseURL = None\<rparr> = Inr p
        \<and> o_isConfigured p)"
  using C9_constructors_need_apiKey[of "\<lparr>apiKey = None, model = None, baseURL = None\<rparr>"]
    C9_constructors_need_apiKey[of "\<lparr>apiKey = Some [], model = None, baseURL = None\<rparr>"]
    C9_constructors_need_apiKey[of "\<lparr>apiKey = Some ''key'', model = None, baseURL = None\<rparr>"]
  by simp

lemma c_role_toContent:
  "c_role (toContent prompt msg) = (if llm_role msg = LLM_user then ''user'' else ''model'')"
  by (simp add: toContent_def)

lemma google_contents_shape:
  "google_contents prompt msgs =
     (if detectMathContent (toLowerCase (join '' '' (map llm_content msgs)))
      then [createMathInstruction] else []) @ map (toContent prompt) msgs"
  by (simp add: google_contents_def Let_def)

lemma google_contents_roles:
  "c \<in> set (google_contents prompt msgs) \<Longrightarrow> c_role c = ''user'' \<or> c_role c = ''model''"
  by (auto simp: google_contents_shape createMathInstruction_def c_role_toContent split: if_splits)

text \<open>
  C10. The vendor-SDK provider sends a turn of role \<^verbatim>\<open>user\<close> with the wire role
  \<^verbatim>\<open>user\<close> and any other turn, \<^verbatim>\<open>assistant\<close> or \<^verbatim>\<open>system\<close>, with the wire role
  \<^verbatim>\<open>model\<close>; no content of a request has the role \<^verbatim>\<open>system\<close>; a turn with empty
  content and no images becomes a content with no parts; and every turn keeps its
  place: the request is the converted turns in order, after at most one instruction
  content.
\<close>

theorem C10_google_roles:
  "c_role (toContent prompt msg) = (if llm_role msg = LLM_user then ''user'' else ''model'') \<and>
   (llm_role msg = LLM_assistant \<or> llm_role msg = LLM_system \<longrightarrow>
      c_role (toContent prompt msg) = ''model'') \<and>
   (\<forall>c \<in> set (google_contents prompt msgs).
      (c_role c = ''user'' \<or> c_role c = ''model'') \<and> c_role c \<noteq> ''system'') \<and>
   (llm_content msg = [] \<and> \<not> has_length (llm_images msg) \<longrightarrow> parts (toContent prompt msg) = []) \<and>
   (\<exists>instruction. length instruction \<le> 1 \<and>
      google_contents prompt msgs = instruction @ map (toContent prompt) msgs)"
proof (intro conjI)
  show "c_role (toContent prompt msg) = (if llm_role msg = LLM_user then ''user'' else ''model'')"
    by (rule c_role_toContent)
  show "llm_role msg = LLM_assistant \<or> llm_role msg = LLM_system \<longrightarrow>
      c_role (toContent prompt msg) = ''model''"
    by (auto simp: c_role_toContent)
  show "\<forall>c \<in> set (google_contents prompt msgs).
      (c_role c = ''user'' \<or> c_role c = ''model'') \<and> c_role c \<noteq> ''system''"
    using google_contents_roles by fastforce
  show "llm_content msg = [] \<and> \<not> has_length (llm_images msg) \<longrightarrow> parts (toContent prompt msg) = []"
    by (auto simp: toContent_def has_length_def split: option.splits)
  show "\<exists>instruction. length instruction \<le> 1 \<and>
      google_contents prompt msgs = instruction @ map (toContent prompt) msgs"
    by (rule exI[of _ "if detectMathContent (toLowerCase (join '' '' (map llm_content msgs)))
                       then [createMathInstruction] else []"])
       (simp add: google_contents_shape)
qed

theorem C10_google_roles_witness:
  "toContent ''P'' \<lparr>llm_role = LLM_system, llm_content = ''be brief'', llm_images = None\<rparr>
     = \<lparr>c_role = ''model'', parts = [Text_part ''be brief'']\<rparr> \<and>
   toContent ''P'' \<lparr>llm_role = LLM_user, llm_content = [], llm_images = None\<rparr>
     = \<lparr>c_role = ''user'', parts = []\<rparr> \<and>
   c_role (toContent ''P'' \<lparr>llm_role = LLM_assistant, llm_content = ''ok'', llm_images = None\<rparr>)
     = ''model''"
  using C10_google_roles[of "''P''" "\<lparr>llm_role = LLM_system, llm_content = ''be brief'', llm_images = None\<rparr>" "[]"]
    C10_google_roles[of "''P''" "\<lparr>llm_role = LLM_user, llm_content = [], llm_images = None\<rparr>" "[]"]
    C10_google_roles[of "''P''" "\<lparr>llm_role = LLM_assistant, llm_content = ''ok'', llm_images = None\<rparr>" "[]"]
  by (simp add: toContent_def has_length_def)

text \<open>
  C3, at a history that holds the keyword: the one user turn \<^verbatim>\<open>quadratic\<close>. The
  keyword is detected and exactly one content is put before the converted history, but
  its only part is the empty text: the instruction that asks for the LaTeX delimiters
  is not sent (\<^verbatim>\<open>createMathInstruction\<close> returns \<^verbatim>\<open>text: ""\<close>). For the one user turn
  \<^verbatim>\<open>hello world\<close> nothing is put before the history.
\<close>

theorem C3_math_instruction_is_empty:
  "google_contents prompt [\<lparr>llm_role = LLM_user, llm_content = ''quadratic'', llm_images = None\<rparr>]
     = [\<lparr>c_role = ''model'', parts = [Text_part []]\<rparr>,
        \<lparr>c_role = ''user'', parts = [Text_part (prompt @ [CHR 0x0A, CHR 0x0A] @ ''User: quadratic'')]\<rparr>] \<and>
   google_contents prompt [\<lparr>llm_role = LLM_user, llm_content = ''hello world'', llm_images = None\<rparr>]
     = [\<lparr>c_role = ''user'', parts = [Text_part (prompt @ [CHR 0x0A, CHR 0x0A] @ ''User: hello world'')]\<rparr>]"
proof -
  have q: "detectMathContent (toLowerCase ''quadratic'')"
    by code_simp
  have h: "\<not> detectMathContent (toLowerCase ''hello world'')"
    by code_simp
  show ?thesis
    using q h by (simp add: google_contents_def toContent_def createMathInstruction_def)
qed

section \<open>Lemmas about the raw-HTTP stream\<close>

lemma split_nl_not_Nil [simp]: "split_nl str \<noteq> []"
  by (induction str) (auto split: list.splits)

lemma split_nl_Cons:
  "split_nl (c # cs) =
     (if c = CHR 0x0A then [] # split_nl cs else (c # hd (split_nl cs)) # tl (split_nl cs))"
  by (cases "split_nl cs") auto

lemma for_lines_Cons:
  "for_lines parse (line # rest) =
     (case handle_line parse line of
        Return \<Rightarrow> ([], True)
      | Yield c \<Rightarrow> (c # fst (for_lines parse rest), snd (for_lines parse rest))
      | Skip \<Rightarrow> for_lines parse rest)"
  by (simp add: split_beta split: line_effect.splits)

declare split_nl.simps(2) [simp del]

declare for_lines.simps(2) [simp del]

declare split_nl_Cons [simp]

declare for_lines_Cons [simp]

lemma split_nl_no_newline: "CHR 0x0A \<notin> set l \<Longrightarrow> split_nl l = [l]"
  by (induction l) auto

lemma last_split_nl_no_newline: "CHR 0x0A \<notin> set (last (split_nl str))"
proof (induction str)
  case Nil
  then show ?case by simp
next
  case (Cons c cs)
  show ?case
  proof (cases "split_nl cs")
    case Nil
    then show ?thesis by simp
  next
    case (Cons l ls)
    with Cons.IH show ?thesis
      by (cases ls) auto
  qed
qed

lemma split_nl_append:
  "split_nl (a @ b) =
     butlast (split_nl a) @ (last (split_nl a) @ hd (split_nl b)) # tl (split_nl b)"
proof (induction a)
  case Nil
  then show ?case by simp
next
  case (Cons c cs)
  show ?case
  proof (cases "split_nl cs")
    case Nil
    then show ?thesis by simp
  next
    case outer: (Cons l ls)
    with Cons.IH show ?thesis
      by (cases ls) auto
  qed
qed

lemma split_nl_line:
  "CHR 0x0A \<notin> set l \<Longrightarrow> split_nl (l @ CHR 0x0A # rest) = l # split_nl rest"
  by (induction l) auto

lemma complete_lines_append:
  "complete_lines (a @ b) = complete_lines a @ complete_lines (last (split_nl a) @ b)"
proof -
  let ?l = "last (split_nl a)"
  have one: "split_nl ?l = [?l]"
    by (rule split_nl_no_newline[OF last_split_nl_no_newline])
  have "split_nl (?l @ b) = (?l @ hd (split_nl b)) # tl (split_nl b)"
    using split_nl_append[of ?l b] by (simp add: one)
  then show ?thesis
    by (simp add: complete_lines_def split_nl_append[of a b] butlast_append)
qed

lemma complete_lines_line:
  "CHR 0x0A \<notin> set l \<Longrightarrow> complete_lines (l @ CHR 0x0A # rest) = l # complete_lines rest"
  by (simp add: complete_lines_def split_nl_line)

lemma complete_lines_no_newline: "CHR 0x0A \<notin> set l \<Longrightarrow> complete_lines l = []"
  by (simp add: complete_lines_def split_nl_no_newline)

lemma last_split_nl_aligned:
  assumes "before = [] \<or> last before = CHR 0x0A"
  shows "last (split_nl before) = []"
proof (cases "before = []")
  case True
  then show ?thesis by simp
next
  case False
  with assms have "before = butlast before @ [CHR 0x0A]"
    by (metis append_butlast_last_id)
  then have "split_nl before = split_nl (butlast before @ [CHR 0x0A])"
    by simp
  then show ?thesis
    by (simp add: split_nl_append[of "butlast before" "[CHR 0x0A]"])
qed

lemma for_lines_append:
  "for_lines parse (xs @ ys) =
     (if snd (for_lines parse xs) then for_lines parse xs
      else (fst (for_lines parse xs) @ fst (for_lines parse ys), snd (for_lines parse ys)))"
  by (induction xs) (auto split: line_effect.splits)

lemma for_lines_skip:
  "handle_line parse l = Skip \<Longrightarrow> for_lines parse (xs @ l # ys) = for_lines parse (xs @ ys)"
  by (simp add: for_lines_append)

lemma for_lines_return:
  "handle_line parse l = Return \<Longrightarrow> fst (for_lines parse (xs @ l # ys)) = fst (for_lines parse xs)"
  by (simp add: for_lines_append)

lemma read_loop_lines:
  "CHR 0x0A \<notin> set buffer \<Longrightarrow>
     read_loop parse buffer chunks = fst (for_lines parse (complete_lines (buffer @ concat chunks)))"
proof (induction chunks arbitrary: buffer)
  case Nil
  then show ?case
    by (simp add: complete_lines_no_newline)
next
  case (Cons v vs)
  let ?l = "last (split_nl (buffer @ v))"
  let ?now = "for_lines parse (complete_lines (buffer @ v))"
  have ih: "read_loop parse ?l vs = fst (for_lines parse (complete_lines (?l @ concat vs)))"
    by (rule Cons.IH[OF last_split_nl_no_newline])
  have round: "read_loop parse buffer (v # vs) =
                 (if snd ?now then fst ?now else fst ?now @ read_loop parse ?l vs)"
    by (simp add: Let_def split_beta complete_lines_def)
  have cl: "complete_lines (buffer @ concat (v # vs))
              = complete_lines (buffer @ v) @ complete_lines (?l @ concat vs)"
    using complete_lines_append[of "buffer @ v" "concat vs"] by simp
  show ?case
    unfolding round cl ih by (simp add: for_lines_append)
qed

lemma openai_fragments_lines:
  "openai_fragments parse chunks = fst (for_lines parse (complete_lines (concat chunks)))"
  using read_loop_lines[of "[]" parse chunks] by (simp add: openai_fragments_def)

lemma handle_line_DONE: "handle_line parse ''data: [DONE]'' = Return"
  by (simp add: handle_line_def)

lemma handle_line_unparsable:
  "parse d = None \<Longrightarrow> d \<noteq> ''[DONE]'' \<Longrightarrow> handle_line parse (''data: '' @ d) = Skip"
  by (simp add: handle_line_def)

text \<open>
  C7. In the stream of the raw-HTTP provider, whatever the chunks the body arrives in:
  when the text holds the line \<^verbatim>\<open>data: [DONE]\<close>, the fragments are those of the text
  before that line, whatever follows it; and a \<^verbatim>\<open>data: \<close> line whose payload
  \<^verbatim>\<open>JSON.parse\<close> rejects (and that is not the sentinel) changes nothing: the fragments
  are those of the text without that line.
\<close>

theorem C7_done_ends_and_bad_json_skipped:
  assumes "before = [] \<or> last before = CHR 0x0A"
  shows "(concat chunks = before @ ''data: [DONE]'' @ [CHR 0x0A] @ after \<longrightarrow>
            openai_fragments parse chunks = openai_fragments parse [before]) \<and>
         (concat chunks = before @ ''data: '' @ d @ [CHR 0x0A] @ after \<and>
          CHR 0x0A \<notin> set d \<and> parse d = None \<and> d \<noteq> ''[DONE]'' \<longrightarrow>
            openai_fragments parse chunks = openai_fragments parse [before @ after])"
proof (intro conjI impI)
  have al: "last (split_nl before) = []"
    by (rule last_split_nl_aligned[OF assms])
  have pre: "openai_fragments parse [before] = fst (for_lines parse (complete_lines before))"
    by (simp add: openai_fragments_lines)
  {
    assume c: "concat chunks = before @ ''data: [DONE]'' @ [CHR 0x0A] @ after"
    have "complete_lines (concat chunks)
            = complete_lines before @ ''data: [DONE]'' # complete_lines after"
      using complete_lines_append[of before "''data: [DONE]'' @ [CHR 0x0A] @ after"]
        complete_lines_line[of "''data: [DONE]''" after]
      by (simp add: c al)
    then have "openai_fragments parse chunks
            = fst (for_lines parse (complete_lines before @ ''data: [DONE]'' # complete_lines after))"
      by (simp only: openai_fragments_lines)
    also have "\<dots> = fst (for_lines parse (complete_lines before))"
      by (rule for_lines_return[OF handle_line_DONE])
    finally show "openai_fragments parse chunks = openai_fragments parse [before]"
      by (simp only: pre)
  }
  {
    assume c: "concat chunks = before @ ''data: '' @ d @ [CHR 0x0A] @ after \<and>
          CHR 0x0A \<notin> set d \<and> parse d = None \<and> d \<noteq> ''[DONE]''"
    then have nl: "CHR 0x0A \<notin> set (''data: '' @ d)"
      by simp
    from c have "parse d = None" and "d \<noteq> ''[DONE]''"
      by simp_all
    then have sk: "handle_line parse (''data: '' @ d) = Skip"
      by (rule handle_line_unparsable)
    have "complete_lines (concat chunks)
            = complete_lines before @ (''data: '' @ d) # complete_lines after"
      using complete_lines_append[of before "(''data: '' @ d) @ [CHR 0x0A] @ after"]
        complete_lines_line[OF nl, of after] c
      by (simp add: al)
    then have "openai_fragments parse chunks
            = fst (for_lines parse (complete_lines before @ (''data: '' @ d) # complete_lines after))"
      by (simp only: openai_fragments_lines)
    also have "\<dots> = fst (for_lines parse (complete_lines before @ complete_lines after))"
      by (simp only: for_lines_skip[OF sk])
    also have "complete_lines before @ complete_lines after = complete_lines (before @ after)"
      using complete_lines_append[of before after] by (simp add: al)
    finally show "openai_fragments parse chunks = openai_fragments parse [before @ after]"
      by (simp add: openai_fragments_lines)
  }
qed

theorem C7_done_ends_and_bad_json_skipped_witness:
  "openai_fragments sample_parse
     [''data: '' @ sample_payload @ [CHR 0x0A] @ ''data: [DO'',
      ''NE]'' @ [CHR 0x0A] @ ''data: '' @ sample_payload @ [CHR 0x0A]]
     = [JStr ''Hi''] \<and>
   openai_fragments sample_parse
     [''data: {oops'' @ [CHR 0x0A] @ ''data: '' @ sample_payload @ [CHR 0x0A]]
     = [JStr ''Hi'']"
proof
  let ?line = "''data: '' @ sample_payload @ [CHR 0x0A]"
  have a1: "?line = [] \<or> last ?line = CHR 0x0A"
    by simp
  have c1: "concat [''data: '' @ sample_payload @ [CHR 0x0A] @ ''data: [DO'',
                    ''NE]'' @ [CHR 0x0A] @ ''data: '' @ sample_payload @ [CHR 0x0A]]
              = ?line @ ''data: [DONE]'' @ [CHR 0x0A] @ ?line"
    by simp
  have e1: "openai_fragments sample_parse [?line] = [JStr ''Hi'']"
    by code_simp
  note T = C7_done_ends_and_bad_json_skipped[OF a1, where parse = sample_parse and after = ?line
      and chunks = "[''data: '' @ sample_payload @ [CHR 0x0A] @ ''data: [DO'',
                     ''NE]'' @ [CHR 0x0A] @ ''data: '' @ sample_payload @ [CHR 0x0A]]"]
  from T[THEN conjunct1] c1
  have "openai_fragments sample_parse
     [''data: '' @ sample_payload @ [CHR 0x0A] @ ''data: [DO'',
      ''NE]'' @ [CHR 0x0A] @ ''data: '' @ sample_payload @ [CHR 0x0A]]
     = openai_fragments sample_parse [?line]"
    by (rule mp)
  then show "openai_fragments sample_parse
     [''data: '' @ sample_payload @ [CHR 0x0A] @ ''data: [DO'',
      ''NE]'' @ [CHR 0x0A] @ ''data: '' @ sample_payload @ [CHR 0x0A]]
     = [JStr ''Hi'']"
    by (simp only: e1)
next
  let ?line = "''data: '' @ sample_payload @ [CHR 0x0A]"
  have a2: "([] :: string) = [] \<or> last ([] :: string) = CHR 0x0A"
    by simp
  have p2: "sample_parse ''{oops'' = None"
    by code_simp
  have c2: "concat [''data: {oops'' @ [CHR 0x0A] @ ?line]
              = [] @ ''data: '' @ ''{oops'' @ [CHR 0x0A] @ ?line \<and>
            CHR 0x0A \<notin> set ''{oops'' \<and> sample_parse ''{oops'' = None \<and> ''{oops'' \<noteq> ''[DONE]''"
    using p2 by simp
  have e2: "openai_fragments sample_parse [[] @ ?line] = [JStr ''Hi'']"
    by code_simp
  note T = C7_done_ends_and_bad_json_skipped[OF a2, where parse = sample_parse and after = ?line
      and d = "''{oops''" and chunks = "[''data: {oops'' @ [CHR 0x0A] @ ?line]"]
  from T[THEN conjunct2] c2
  have "openai_fragments sample_parse [''data: {oops'' @ [CHR 0x0A] @ ?line]
     = openai_fragments sample_parse [[] @ ?line]"
    by (rule mp)
  then show "openai_fragments sample_parse
     [''data: {oops'' @ [CHR 0x0A] @ ''data: '' @ sample_payload @ [CHR 0x0A]]
     = [JStr ''Hi'']"
    by (simp only: e2)
qed

section \<open>More about the providers\<close>

text \<open>
  The keyword test is exact: it succeeds on a text in which a keyword stands between
  two word boundaries, and only on a text in which some keyword occurs.
\<close>

lemma test_from_append:
  "match_here (if pre = [] then before else is_word_char (last pre)) rest \<Longrightarrow>
     test_from before (pre @ rest)"
proof (induction pre arbitrary: before)
  case Nil
  then show ?case
    by (cases rest) simp_all
next
  case (Cons c cs)
  then have "match_here (if cs = [] then is_word_char c else is_word_char (last cs)) rest"
    by (simp split: if_splits)
  from Cons.IH[OF this] show ?case
    by simp
qed

lemma math_keyword_token_detected:
  assumes "k \<in> set mathKeywords"
      and "word_boundary (pre \<noteq> [] \<and> is_word_char (last pre)) (k @ post)"
      and "word_boundary (is_word_char (last k)) post"
  shows "detectMathContent (pre @ k @ post)"
proof -
  have "keyword_here k (k @ post)"
    using assms(3) by (simp add: keyword_here_def)
  with assms(1) have "list_ex (\<lambda>kw. keyword_here kw (k @ post)) mathKeywords"
    by (auto simp: list_ex_iff)
  with assms(2) have "match_here (pre \<noteq> [] \<and> is_word_char (last pre)) (k @ post)"
    by (simp add: match_here_def)
  then have "match_here (if pre = [] then False else is_word_char (last pre)) (k @ post)"
    by (cases "pre = []") simp_all
  from test_from_append[OF this] show ?thesis
    by (simp add: detectMathContent_def)
qed

lemma test_from_keyword_occurs:
  "test_from before str \<Longrightarrow> \<exists>k \<in> set mathKeywords. \<exists>pre post. str = pre @ k @ post"
proof (induction str arbitrary: before)
  case Nil
  then have "list_ex (\<lambda>k. take (length k) [] = k) mathKeywords"
    by (simp add: match_here_def keyword_here_def list_ex_iff)
  then obtain k where "k \<in> set mathKeywords" and "k = []"
    by (auto simp: list_ex_iff)
  then show ?case
    by auto
next
  case (Cons c cs)
  show ?case
  proof (cases "match_here before (c # cs)")
    case True
    then obtain k where k: "k \<in> set mathKeywords" and t: "take (length k) (c # cs) = k"
      by (auto simp: match_here_def keyword_here_def list_ex_iff)
    have "c # cs = [] @ k @ drop (length k) (c # cs)"
      using append_take_drop_id[of "length k" "c # cs"] t by simp
    with k show ?thesis
      by blast
  next
    case False
    with Cons.prems have "test_from (is_word_char c) cs"
      by simp
    from Cons.IH[OF this] obtain k pre post where
      "k \<in> set mathKeywords" and "cs = pre @ k @ post"
      by blast
    then have "c # cs = (c # pre) @ k @ post"
      by simp
    with \<open>k \<in> set mathKeywords\<close> show ?thesis
      by blast
  qed
qed

text \<open>
  A history whose joined lower-cased texts hold the token \<^verbatim>\<open>quadratic\<close> gets exactly
  one content of role \<^verbatim>\<open>model\<close> before the converted history; a history in whose
  joined lower-cased texts no keyword occurs gets none.
\<close>

theorem quadratic_token_injects_one_content:
  assumes "toLowerCase (join '' '' (map llm_content msgs)) = pre @ ''quadratic'' @ post"
      and "pre = [] \<or> \<not> is_word_char (last pre)"
      and "post = [] \<or> \<not> is_word_char (hd post)"
  shows "google_contents prompt msgs = createMathInstruction # map (toContent prompt) msgs"
proof -
  have k: "''quadratic'' \<in> set mathKeywords"
    by (simp add: mathKeywords_def)
  have q: "is_word_char CHR ''q''" and c: "is_word_char (last ''quadratic'')"
    by (simp_all add: is_word_char_def)
  have b1: "word_boundary (pre \<noteq> [] \<and> is_word_char (last pre)) (''quadratic'' @ post)"
    using assms(2) q by (auto simp: word_boundary_def)
  have b2: "word_boundary (is_word_char (last ''quadratic'')) post"
    using assms(3) c by (cases post) (auto simp: word_boundary_def)
  from math_keyword_token_detected[OF k b1 b2]
  have "detectMathContent (toLowerCase (join '' '' (map llm_content msgs)))"
    by (simp only: assms(1))
  then show ?thesis
    by (simp add: google_contents_def Let_def)
qed

theorem no_keyword_injects_nothing:
  assumes "\<not> (\<exists>k \<in> set mathKeywords. \<exists>pre post.
               toLowerCase (join '' '' (map llm_content msgs)) = pre @ k @ post)"
  shows "google_contents prompt msgs = map (toContent prompt) msgs"
proof -
  have "\<not> detectMathContent (toLowerCase (join '' '' (map llm_content msgs)))"
    using assms test_from_keyword_occurs
    unfolding detectMathContent_def by blast
  then show ?thesis
    by (simp add: google_contents_def Let_def)
qed

text \<open>
  What the two providers of the repository hand to the controller: the vendor-SDK
  provider never yields the empty string, the raw-HTTP provider yields only truthy
  values, and what either of them throws is an \<^verbatim>\<open>Error\<close> named \<^verbatim>\<open>Error\<close>, never an
  \<^verbatim>\<open>AbortError\<close>.
\<close>

lemma google_yield_nonempty: "[] \<notin> set (google_yield chunks)"
  by (induction chunks) (auto simp: google_yield_def split: option.splits)

lemma handle_line_Yield: "handle_line parse l = Yield c \<Longrightarrow> truthy c"
  by (auto simp: handle_line_def Let_def split: if_splits option.splits sum.splits)

lemma for_lines_truthy: "c \<in> set (fst (for_lines parse ls)) \<Longrightarrow> truthy c"
proof (induction ls)
  case Nil
  then show ?case by simp
next
  case (Cons l ls)
  then show ?case
    by (cases "handle_line parse l") (auto dest: handle_line_Yield)
qed

lemma openai_fragments_truthy: "c \<in> set (openai_fragments parse chunks) \<Longrightarrow> truthy c"
  by (simp add: openai_fragments_lines for_lines_truthy)

lemma provider_rethrow_not_abort: "\<not> is_AbortError (provider_rethrow name err)"
  by (cases err) (simp_all add: provider_rethrow_def new_Error_def is_AbortError_def)

end
